theory Spec2Isabelle
  imports Main "HOL-Library.Word"
begin

unbundle bit_operations_syntax

section \<open>Session identity derivation\<close>

text \<open>
  The class \<open>McpSessionManager\<close> exists in two versions in the repository. The one in
  \<open>src/unnamed/part_000\<close> salts the session id with a timestamp and validates a cached
  connection before handing it out; its functions keep their source names here. The one
  in \<open>src/nodes/McpClient/McpSessionManager.ts\<close> has neither; where its code differs, the
  definition carries the suffix \<open>_nodes\<close>. Code that is the same text in both files
  (\<open>cleanup\<close>, \<open>checkAndCleanupExpiredSessions\<close>, \<open>cleanupAllSessions\<close>) is embedded once.
\<close>

subsection \<open>The configuration object and \<open>JSON.stringify\<close>\<close>

text \<open>
  A connection configuration is a JavaScript object. \<open>JSON.stringify\<close> walks its own
  properties in insertion order, so the object is the list of its properties in that
  order, each property one of the fields of the parameter type of \<open>generateSessionId\<close>.
  An optional field that is absent (or \<open>undefined\<close>, which \<open>JSON.stringify\<close> skips) is
  not in the list. Strings are lists of 8-bit characters (code units below 256).
\<close>

text \<open>
  The field \<open>timestamp\<close> has the type \<open>number\<close>. A number value is an integer, \<open>NaN\<close>,
  \<open>Infinity\<close> or \<open>-Infinity\<close>; \<open>-0\<close> is \<open>Integral 0\<close>, from which no expression of
  \<open>generateSessionId\<close> tells it apart (it is rendered \<open>0\<close> and it is falsy). Finite
  numbers with a fraction are left out. The decimal and radix-36 renderings of an integer
  below are those of JavaScript for safe integers (of magnitude below \<open>2 ^ 53\<close>), which
  is what \<open>Date.now()\<close> and \<open>Math.abs\<close> of a 32-bit hash return.
\<close>

datatype number = Integral int | NaN | Infinity | NegInfinity

datatype property =
    ConnectionType string
  | Command string
  | Args "string list"
  | Env "(string \<times> string) list"
  | HttpStreamUrl string
  | SseUrl string
  | Headers "(string \<times> string) list"
  | Timestamp number

type_synonym connectionConfig = "property list"

definition digitChar :: "int \<Rightarrow> char" where
  "digitChar d = (if d < 10 then char_of (48 + d) else char_of (87 + d))"

function toRadix :: "int \<Rightarrow> int \<Rightarrow> string" where
  "toRadix b n =
     (if n < b \<or> b < 2 then [digitChar n] else toRadix b (n div b) @ [digitChar (n mod b)])"
  by pat_completeness auto
termination
  by (relation "measure (\<lambda>(b, n). nat n)") (auto simp: int_div_less_self)

declare toRadix.simps [simp del]

text \<open>\<open>Number.prototype.toString(radix)\<close> on an integer.\<close>

definition numberToString :: "int \<Rightarrow> int \<Rightarrow> string" where
  "numberToString radix i =
     (if i < 0 then CHR ''-'' # toRadix radix (- i) else toRadix radix i)"

text \<open>
  \<open>Number.prototype.toString(radix)\<close>, and the template literal's \<open>ToString\<close> with radix
  10, on a number value: a value that is not finite has the same name in every radix.
\<close>

definition Number_toString :: "int \<Rightarrow> number \<Rightarrow> string" where
  "Number_toString radix v =
     (case v of
        Integral i \<Rightarrow> numberToString radix i
      | NaN \<Rightarrow> ''NaN''
      | Infinity \<Rightarrow> ''Infinity''
      | NegInfinity \<Rightarrow> ''-Infinity'')"

text \<open>\<open>ToBoolean\<close> on a number value, which \<open>||\<close> applies to its left operand.\<close>

definition ToBoolean :: "number \<Rightarrow> bool" where
  "ToBoolean v =
     (case v of
        Integral i \<Rightarrow> i \<noteq> 0
      | NaN \<Rightarrow> False
      | Infinity \<Rightarrow> True
      | NegInfinity \<Rightarrow> True)"

text \<open>
  \<open>QuoteJSONString\<close>: the double quote (0x22) and the backslash (0x5C) are escaped with
  a backslash, the control characters below 0x20 by their short escape or \<open>\u00XX\<close>.
\<close>

definition quoteChar :: "char \<Rightarrow> string" where
  "quoteChar c =
     (if c = CHR 0x22 then [CHR 0x5C, CHR 0x22]
      else if c = CHR 0x5C then [CHR 0x5C, CHR 0x5C]
      else if c = CHR 0x08 then [CHR 0x5C, CHR ''b'']
      else if c = CHR 0x09 then [CHR 0x5C, CHR ''t'']
      else if c = CHR 0x0A then [CHR 0x5C, CHR ''n'']
      else if c = CHR 0x0C then [CHR 0x5C, CHR ''f'']
      else if c = CHR 0x0D then [CHR 0x5C, CHR ''r'']
      else if (of_char c :: int) < 32
        then [CHR 0x5C, CHR ''u'', CHR ''0'', CHR ''0'',
              digitChar (of_char c div 16), digitChar (of_char c mod 16)]
      else [c])"

definition quoteJSONString :: "string \<Rightarrow> string" where
  "quoteJSONString s = CHR 0x22 # concat (map quoteChar s) @ [CHR 0x22]"

text \<open>
  \<open>JSON.stringify\<close> on a number value: a finite number is written in decimal, \<open>NaN\<close>
  and the infinities are written \<open>null\<close>.
\<close>

definition stringifyNumber :: "number \<Rightarrow> string" where
  "stringifyNumber v = (case v of Integral i \<Rightarrow> numberToString 10 i | _ \<Rightarrow> ''null'')"

fun joinWith :: "string \<Rightarrow> string list \<Rightarrow> string" where
  "joinWith sep [] = []"
| "joinWith sep [x] = x"
| "joinWith sep (x # y # ys) = x @ sep @ joinWith sep (y # ys)"

definition stringifyArray :: "string list \<Rightarrow> string" where
  "stringifyArray xs = ''['' @ joinWith '','' (map quoteJSONString xs) @ '']''"

definition stringifyRecord :: "(string \<times> string) list \<Rightarrow> string" where
  "stringifyRecord kvs =
     ''{'' @ joinWith '','' (map (\<lambda>(k, v). quoteJSONString k @ '':'' @ quoteJSONString v) kvs)
       @ ''}''"

fun stringifyProperty :: "property \<Rightarrow> string" where
  "stringifyProperty (ConnectionType s) =
     quoteJSONString ''connectionType'' @ '':'' @ quoteJSONString s"
| "stringifyProperty (Command s) = quoteJSONString ''command'' @ '':'' @ quoteJSONString s"
| "stringifyProperty (Args xs) = quoteJSONString ''args'' @ '':'' @ stringifyArray xs"
| "stringifyProperty (Env kvs) = quoteJSONString ''env'' @ '':'' @ stringifyRecord kvs"
| "stringifyProperty (HttpStreamUrl s) =
     quoteJSONString ''httpStreamUrl'' @ '':'' @ quoteJSONString s"
| "stringifyProperty (SseUrl s) = quoteJSONString ''sseUrl'' @ '':'' @ quoteJSONString s"
| "stringifyProperty (Headers kvs) = quoteJSONString ''headers'' @ '':'' @ stringifyRecord kvs"
| "stringifyProperty (Timestamp t) =
     quoteJSONString ''timestamp'' @ '':'' @ stringifyNumber t"

definition JSON_stringify :: "connectionConfig \<Rightarrow> string" where
  "JSON_stringify cfg = ''{'' @ joinWith '','' (map stringifyProperty cfg) @ ''}''"

text \<open>The property read \<open>connectionConfig.timestamp\<close>: \<open>None\<close> is \<open>undefined\<close>.\<close>

fun timestampOf :: "connectionConfig \<Rightarrow> number option" where
  "timestampOf [] = None"
| "timestampOf (Timestamp t # ps) = Some t"
| "timestampOf (p # ps) = timestampOf ps"

subsection \<open>The hash and the id\<close>

text \<open>
  The loop body \<open>hash = ((hash << 5) - hash) + char; hash = hash & hash\<close>. The shift
  and the \<open>&\<close> both convert to a 32-bit integer, and the subtraction and addition between
  them are exact in double precision (their operands are below \<open>2 ^ 33\<close>), so the loop
  computes in 32-bit words; \<open>sint\<close> reads the signed value JavaScript holds.
\<close>

definition hashStep :: "32 word \<Rightarrow> char \<Rightarrow> 32 word" where
  "hashStep hash c = (let h = (push_bit 5 hash - hash) + of_char c in h AND h)"

definition hashString :: "string \<Rightarrow> 32 word" where
  "hashString s = foldl hashStep 0 s"

text \<open>
  \<open>generateSessionId\<close> of \<open>src/unnamed/part_000\<close> (lines 47-68). The argument \<open>now\<close>
  is what \<open>Date.now()\<close> returns when the function reads it; \<open>a || b\<close> takes \<open>b\<close> when
  \<open>a\<close> is \<open>undefined\<close> or a number that is falsy, which \<open>0\<close> and \<open>NaN\<close> are.
\<close>

definition generateSessionId :: "int \<Rightarrow> connectionConfig \<Rightarrow> string" where
  "generateSessionId now connectionConfig =
     (let configStr = JSON_stringify connectionConfig;
          timestamp = (case timestampOf connectionConfig of
                         None \<Rightarrow> Integral now
                       | Some t \<Rightarrow> if ToBoolean t then t else Integral now);
          combined = configStr @ ''_'' @ Number_toString 10 timestamp;
          hash = hashString combined
      in ''mcp_session_'' @ numberToString 36 \<bar>sint hash\<bar> @ ''_'' @ Number_toString 36 timestamp)"

text \<open>\<open>generateSessionId\<close> of \<open>src/nodes/McpClient/McpSessionManager.ts\<close> (lines 47-65).\<close>

definition generateSessionId_nodes :: "connectionConfig \<Rightarrow> string" where
  "generateSessionId_nodes connectionConfig =
     (let configStr = JSON_stringify connectionConfig;
          hash = hashString configStr
      in ''mcp_session_'' @ numberToString 36 \<bar>sint hash\<bar>)"

text \<open>
  The spread \<open>{...connectionConfig, timestamp: v}\<close>: an existing \<open>timestamp\<close> property
  keeps its place and takes the new value, otherwise the property is added last.
\<close>

fun withTimestamp :: "connectionConfig \<Rightarrow> number \<Rightarrow> connectionConfig" where
  "withTimestamp [] v = [Timestamp v]"
| "withTimestamp (Timestamp t # ps) v = Timestamp v # ps"
| "withTimestamp (p # ps) v = p # withTimestamp ps v"

text \<open>
  \<open>createNewSession\<close> (part_000, lines 193-199). \<open>Date.now()\<close> is read once here and,
  when that reading is \<open>0\<close>, once more inside \<open>generateSessionId\<close>.
\<close>

definition createNewSession :: "int \<Rightarrow> int \<Rightarrow> connectionConfig \<Rightarrow> string" where
  "createNewSession now now' connectionConfig =
     generateSessionId now' (withTimestamp connectionConfig (Integral now))"


section \<open>The session manager\<close>

subsection \<open>Objects, promises and the world\<close>

text \<open>
  JavaScript runs one piece of code at a time: an \<open>async\<close> function runs without
  interruption from its call to its first \<open>await\<close>, and from one \<open>await\<close> to the
  next. Each such piece is a function on the world below; the world holds every
  \<open>McpSessionManager\<close> object by reference (other callers keep a handle that the
  registry has dropped), the static \<open>instances\<close> map in insertion order, the state of
  every promise returned by \<open>doConnect\<close>, and the trace of calls made to the outside
  (the MCP client and transport, the timers, the console). Clients, transports, timers,
  promises and session managers are named by numbers; \<open>fresh\<close> is the next unused one.
\<close>

datatype promise = Pending | Resolved | Rejected string

record handle =
  client :: "nat option"
  transport :: "nat option"
  isConnected :: bool
  connectionPromise :: "nat option"
  lastUsed :: int
  sessionId :: string
  cleanupTimer :: "nat option"

text \<open>
  The calls to the outside: \<open>new Client(...)\<close> giving the client; the assignment of
  \<open>transport.onerror\<close> on a transport by a session manager; \<open>client.connect(transport)\<close>
  by client and transport; \<open>client.listTools()\<close>; \<open>transport.close()\<close>;
  \<open>setTimeout\<close> giving the timer, with its delay; \<open>clearTimeout\<close>; \<open>console.log\<close>
  and \<open>console.error\<close> (whose second argument, the error, is put after the message).
\<close>

datatype event =
    NewClient nat
  | SetOnError nat nat
  | ClientConnect nat nat
  | ListTools nat
  | TransportClose nat
  | SetTimeout nat int
  | ClearTimeout nat
  | ConsoleLog string
  | ConsoleError string

record world =
  heap :: "nat \<Rightarrow> handle"
  instances :: "(string \<times> nat) list"
  promises :: "nat \<Rightarrow> promise"
  fresh :: nat
  trace :: "event list"

text \<open>
  What the outside answers: the reading of \<open>Date.now()\<close>, and for each awaited call
  whether it fails (\<open>Some\<close> the error's message) or succeeds (\<open>None\<close>):
  \<open>transport.close()\<close> by transport, \<open>client.connect(transport)\<close> by transport,
  \<open>client.listTools()\<close> by client. Every awaited call is taken to settle.
\<close>

record env =
  dateNow :: int
  closeError :: "nat \<Rightarrow> string option"
  connectError :: "nat \<Rightarrow> string option"
  listToolsError :: "nat \<Rightarrow> string option"

text \<open>
  How a call ends: it returns a value, it throws an \<open>Error\<close> (its message), or the
  promise it waits for is never settled.
\<close>

datatype 'a outcome = Returns 'a | Throws string | Pends

definition SESSION_TIMEOUT :: int where
  "SESSION_TIMEOUT = 30 * 60 * 1000"

definition CLEANUP_INTERVAL :: int where
  "CLEANUP_INTERVAL = 5 * 60 * 1000"

definition emit :: "event \<Rightarrow> world \<Rightarrow> world" where
  "emit e w = w\<lparr>trace := trace w @ [e]\<rparr>"

definition modify :: "nat \<Rightarrow> (handle \<Rightarrow> handle) \<Rightarrow> world \<Rightarrow> world" where
  "modify r f w = w\<lparr>heap := (heap w)(r := f (heap w r))\<rparr>"

subsection \<open>\<open>cleanup\<close>\<close>

text \<open>
  \<open>cleanup\<close> (part_000 lines 204-222, the nodes file lines 169-187). \<open>cleanup_call\<close>
  is the code up to \<open>await this.transport.close()\<close>: it returns the transport whose
  close is awaited, or \<open>None\<close> when there is no transport and the function has run to
  its end. \<open>cleanup_resume\<close> is the code after the \<open>await\<close>, given how the close went.
\<close>

definition cleanup_finish :: "nat \<Rightarrow> world \<Rightarrow> world" where
  "cleanup_finish r w =
     emit (ConsoleLog (''MCP session '' @ sessionId (heap w r) @ '' cleaned up''))
       (modify r (\<lambda>h. h\<lparr>client := None, isConnected := False\<rparr>) w)"

definition cleanup_call :: "nat \<Rightarrow> world \<Rightarrow> nat option \<times> world" where
  "cleanup_call r w =
     (let w1 = (case cleanupTimer (heap w r) of
                  Some tm \<Rightarrow> modify r (\<lambda>h. h\<lparr>cleanupTimer := None\<rparr>) (emit (ClearTimeout tm) w)
                | None \<Rightarrow> w)
      in case transport (heap w1 r) of
           Some t \<Rightarrow> (Some t, emit (TransportClose t) w1)
         | None \<Rightarrow> (None, cleanup_finish r w1))"

definition cleanup_resume :: "nat \<Rightarrow> string option \<Rightarrow> world \<Rightarrow> world" where
  "cleanup_resume r closeErr w =
     (let w1 = (case closeErr of
                  Some e \<Rightarrow> emit (ConsoleError (''Error closing transport for session ''
                                                 @ sessionId (heap w r) @ '': '' @ e)) w
                | None \<Rightarrow> w);
          w2 = modify r (\<lambda>h. h\<lparr>transport := None\<rparr>) w1
      in cleanup_finish r w2)"

text \<open>\<open>await handle.cleanup()\<close> with nothing else running in between.\<close>

definition cleanup :: "env \<Rightarrow> nat \<Rightarrow> world \<Rightarrow> unit outcome \<times> world" where
  "cleanup e r w =
     (case cleanup_call r w of
        (None, w1) \<Rightarrow> (Returns (), w1)
      | (Some t, w1) \<Rightarrow> (Returns (), cleanup_resume r (closeError e t) w1))"

subsection \<open>\<open>doConnect\<close>\<close>

text \<open>
  \<open>doConnect\<close> (part_000 lines 112-151; the nodes file, lines 105-144, differs only
  in what the error observer does when it is called). A running \<open>doConnect\<close> is the promise it
  returned, its transport argument and the \<open>await\<close> it stands at: the close inside
  \<open>cleanup\<close> (line 115, through line 212), the promise of \<open>cleanup\<close> itself (line 115)
  or the handshake \<open>client.connect\<close> (line 140).
\<close>

datatype doConnect_at = InCleanup nat | AfterCleanup | InHandshake nat | Settled

type_synonym attempt = "nat \<times> nat \<times> doConnect_at"

definition doConnect_call :: "nat \<Rightarrow> nat \<Rightarrow> world \<Rightarrow> attempt \<times> world" where
  "doConnect_call r t w =
     (let p = fresh w;
          w0 = w\<lparr>fresh := Suc p, promises := (promises w)(p := Pending)\<rparr>
      in case cleanup_call r w0 of
           (Some told, w1) \<Rightarrow> ((p, t, InCleanup told), w1)
         | (None, w1) \<Rightarrow> ((p, t, AfterCleanup), w1))"

text \<open>Lines 118-140: the new client, the error observer, the call of the handshake.\<close>

definition doConnect_create :: "nat \<Rightarrow> nat \<Rightarrow> world \<Rightarrow> nat \<times> world" where
  "doConnect_create r t w =
     (let c = fresh w;
          w1 = modify r (\<lambda>h. h\<lparr>client := Some c\<rparr>) (emit (NewClient c) (w\<lparr>fresh := Suc c\<rparr>));
          w2 = emit (SetOnError t r) w1
      in (c, emit (ClientConnect c t) w2))"

text \<open>Lines 141-150: after the handshake, on success and in the \<open>catch\<close>.\<close>

definition doConnect_settle :: "nat \<Rightarrow> nat \<Rightarrow> nat \<Rightarrow> string option \<Rightarrow> world \<Rightarrow> world" where
  "doConnect_settle r t p connectErr w =
     (case connectErr of
        None \<Rightarrow>
          (let w1 = modify r (\<lambda>h. h\<lparr>transport := Some t, isConnected := True\<rparr>) w;
               w2 = emit (ConsoleLog (''MCP session '' @ sessionId (heap w r)
                                      @ '' connected successfully'')) w1
           in w2\<lparr>promises := (promises w2)(p := Resolved)\<rparr>)
      | Some msg \<Rightarrow>
          (let w1 = modify r (\<lambda>h. h\<lparr>isConnected := False, client := None, transport := None\<rparr>) w
           in w1\<lparr>promises := (promises w1)(p := Rejected
                 (''Failed to connect MCP session '' @ sessionId (heap w r) @ '': '' @ msg))\<rparr>))"

text \<open>One step of a running \<open>doConnect\<close>, the awaited call answered by the outside.\<close>

definition doConnect_resume :: "env \<Rightarrow> nat \<Rightarrow> attempt \<Rightarrow> world \<Rightarrow> attempt \<times> world" where
  "doConnect_resume e r a w =
     (case a of (p, t, at) \<Rightarrow>
        (case at of
           InCleanup told \<Rightarrow> ((p, t, AfterCleanup), cleanup_resume r (closeError e told) w)
         | AfterCleanup \<Rightarrow> (case doConnect_create r t w of (c, w1) \<Rightarrow> ((p, t, InHandshake c), w1))
         | InHandshake c \<Rightarrow> ((p, t, Settled), doConnect_settle r t p (connectError e t) w)
         | Settled \<Rightarrow> (a, w)))"

text \<open>A running \<open>doConnect\<close> taken to its end: at most three steps.\<close>

definition doConnect_run :: "env \<Rightarrow> nat \<Rightarrow> attempt \<Rightarrow> world \<Rightarrow> world" where
  "doConnect_run e r a w =
     (case doConnect_resume e r a w of (a1, w1) \<Rightarrow>
      case doConnect_resume e r a1 w1 of (a2, w2) \<Rightarrow>
      snd (doConnect_resume e r a2 w2))"

text \<open>
  The error observer installed on the transport: part_000 lines 132-137, and the one
  of the nodes file, lines 126-130, which only marks the session disconnected.
\<close>

definition transport_onerror :: "nat \<Rightarrow> string \<Rightarrow> world \<Rightarrow> world" where
  "transport_onerror r msg w =
     modify r (\<lambda>h. h\<lparr>isConnected := False, client := None, transport := None\<rparr>)
       (emit (ConsoleError (''MCP Transport error for session '' @ sessionId (heap w r)
                            @ '': '' @ msg)) w)"

definition transport_onerror_nodes :: "nat \<Rightarrow> string \<Rightarrow> world \<Rightarrow> world" where
  "transport_onerror_nodes r msg w =
     modify r (\<lambda>h. h\<lparr>isConnected := False\<rparr>)
       (emit (ConsoleError (''MCP Transport error for session '' @ sessionId (heap w r)
                            @ '': '' @ msg)) w)"

subsection \<open>\<open>validateConnection\<close>, \<open>getClient\<close>, \<open>getClientSync\<close>\<close>

text \<open>
  \<open>validateConnection\<close> (part_000 lines 181-191) up to its \<open>await\<close>: it throws at once
  without a client or a transport (\<open>None\<close>), otherwise it calls \<open>listTools\<close> on the
  client (\<open>Some\<close> the client) and waits.
\<close>

definition validateConnection_call :: "nat \<Rightarrow> world \<Rightarrow> nat option \<times> world" where
  "validateConnection_call r w =
     (case (client (heap w r), transport (heap w r)) of
        (Some c, Some t) \<Rightarrow> (Some c, emit (ListTools c) w)
      | _ \<Rightarrow> (None, w))"

text \<open>The error \<open>validateConnection\<close> ends with, if any.\<close>

definition validateConnection_error :: "env \<Rightarrow> nat option \<Rightarrow> string option" where
  "validateConnection_error e probe =
     (case probe of
        None \<Rightarrow> Some ''No client or transport available''
      | Some c \<Rightarrow> (case listToolsError e c of
                    None \<Rightarrow> None
                  | Some msg \<Rightarrow> Some (''Connection validation failed: '' @ msg)))"

text \<open>
  \<open>getClient\<close> (part_000 lines 153-167): the code up to the \<open>await\<close> of line 156, and
  the code after it. A call that does not reach the \<open>await\<close> returns \<open>null\<close>.
\<close>

definition getClient_call :: "nat \<Rightarrow> world \<Rightarrow> nat option option \<times> world" where
  "getClient_call r w =
     (if isConnected (heap w r) \<and> client (heap w r) \<noteq> None
      then (case validateConnection_call r w of (probe, w1) \<Rightarrow> (Some probe, w1))
      else (None, w))"

definition getClient_resume :: "env \<Rightarrow> nat \<Rightarrow> nat option \<Rightarrow> world \<Rightarrow> nat option outcome \<times> world" where
  "getClient_resume e r probe w =
     (case validateConnection_error e probe of
        None \<Rightarrow>
          (let w1 = modify r (\<lambda>h. h\<lparr>lastUsed := dateNow e\<rparr>) w
           in (Returns (client (heap w1 r)), w1))
      | Some err \<Rightarrow>
          (let w1 = emit (ConsoleLog (''Session '' @ sessionId (heap w r)
                                      @ '' validation failed during getClient'')) w;
               w2 = modify r (\<lambda>h. h\<lparr>isConnected := False, client := None\<rparr>) w1
           in (Returns None, w2)))"

definition getClient :: "env \<Rightarrow> nat \<Rightarrow> world \<Rightarrow> nat option outcome \<times> world" where
  "getClient e r w =
     (case getClient_call r w of
        (None, w1) \<Rightarrow> (Returns None, w1)
      | (Some probe, w1) \<Rightarrow> getClient_resume e r probe w1)"

text \<open>
  \<open>getClientSync\<close> (part_000 lines 169-175); \<open>getClient\<close> of the nodes file (lines
  150-156) is the same code.
\<close>

definition getClientSync :: "env \<Rightarrow> nat \<Rightarrow> world \<Rightarrow> nat option outcome \<times> world" where
  "getClientSync e r w =
     (if isConnected (heap w r) \<and> client (heap w r) \<noteq> None
      then (let w1 = modify r (\<lambda>h. h\<lparr>lastUsed := dateNow e\<rparr>) w
            in (Returns (client (heap w1 r)), w1))
      else (Returns None, w))"

definition isSessionConnected :: "nat \<Rightarrow> world \<Rightarrow> bool" where
  "isSessionConnected r w = (isConnected (heap w r) \<and> client (heap w r) \<noteq> None)"


subsection \<open>\<open>connect\<close>\<close>

text \<open>
  \<open>connect\<close> (part_000 lines 75-106; the nodes file, lines 72-99, differs in its
  first \<open>if\<close> only). A running \<open>connect\<close> stands at one of its three
  \<open>await\<close>s: the validation of line 78 (with the client being probed, or \<open>None\<close> when
  \<open>validateConnection\<close> threw at once), the promise of another caller's attempt at line
  89, or the promise of its own \<open>doConnect\<close> at line 97; or it has finished. Each piece
  returns where the call stands now, the \<open>doConnect\<close> it has started, if any, and the
  world. The value returned is \<open>this.client\<close> as read at the \<open>return\<close>.
\<close>

datatype connect_at =
    AtValidate "nat option"
  | AtShared nat
  | AtOwn nat
  | Finished "nat option outcome"

text \<open>Lines 96-97: start \<open>doConnect\<close>, keep its promise, wait for it.\<close>

definition connect_attempt :: "nat \<Rightarrow> nat \<Rightarrow> world \<Rightarrow> connect_at \<times> attempt list \<times> world" where
  "connect_attempt r t w =
     (case doConnect_call r t w of
        ((p, a), w1) \<Rightarrow>
          (AtOwn p, [(p, a)], modify r (\<lambda>h. h\<lparr>connectionPromise := Some p\<rparr>) w1))"

text \<open>Lines 88-89: wait for the attempt in flight, if there is one.\<close>

definition connect_wait :: "nat \<Rightarrow> nat \<Rightarrow> world \<Rightarrow> connect_at \<times> attempt list \<times> world" where
  "connect_wait r t w =
     (case connectionPromise (heap w r) of
        Some p \<Rightarrow> (AtShared p, [], w)
      | None \<Rightarrow> connect_attempt r t w)"

text \<open>The call itself, lines 76-78 of part_000.\<close>

definition connect_call :: "nat \<Rightarrow> nat \<Rightarrow> world \<Rightarrow> connect_at \<times> attempt list \<times> world" where
  "connect_call r t w =
     (if isConnected (heap w r) \<and> client (heap w r) \<noteq> None
      then (case validateConnection_call r w of (probe, w1) \<Rightarrow> (AtValidate probe, [], w1))
      else connect_wait r t w)"

text \<open>The call in the nodes file, lines 74-77: a connected session returns at once.\<close>

definition connect_call_nodes ::
  "env \<Rightarrow> nat \<Rightarrow> nat \<Rightarrow> world \<Rightarrow> connect_at \<times> attempt list \<times> world" where
  "connect_call_nodes e r t w =
     (if isConnected (heap w r) \<and> client (heap w r) \<noteq> None
      then (let w1 = modify r (\<lambda>h. h\<lparr>lastUsed := dateNow e\<rparr>) w
            in (Finished (Returns (client (heap w1 r))), [], w1))
      else connect_wait r t w)"

text \<open>
  The code after each \<open>await\<close>: lines 79-85 and on, lines 90-93 and on, lines 98-105
  (the same in the nodes file, lines 82-98). A call waiting for a pending promise stays
  where it is; awaiting a rejected promise throws its error.
\<close>

definition connect_resume ::
  "env \<Rightarrow> nat \<Rightarrow> nat \<Rightarrow> connect_at \<Rightarrow> world \<Rightarrow> connect_at \<times> attempt list \<times> world" where
  "connect_resume e r t at w =
     (case at of
        AtValidate probe \<Rightarrow>
          (case validateConnection_error e probe of
             None \<Rightarrow>
               (let w1 = modify r (\<lambda>h. h\<lparr>lastUsed := dateNow e\<rparr>) w
                in (Finished (Returns (client (heap w1 r))), [], w1))
           | Some err \<Rightarrow>
               (let w1 = emit (ConsoleLog (''Session '' @ sessionId (heap w r)
                                @ '' connection validation failed, reconnecting...'')) w;
                    w2 = modify r (\<lambda>h. h\<lparr>isConnected := False, client := None\<rparr>) w1
                in connect_wait r t w2))
      | AtShared p \<Rightarrow>
          (case promises w p of
             Pending \<Rightarrow> (AtShared p, [], w)
           | Rejected err \<Rightarrow> (Finished (Throws err), [], w)
           | Resolved \<Rightarrow>
               if isConnected (heap w r) \<and> client (heap w r) \<noteq> None
               then (let w1 = modify r (\<lambda>h. h\<lparr>lastUsed := dateNow e\<rparr>) w
                     in (Finished (Returns (client (heap w1 r))), [], w1))
               else connect_attempt r t w)
      | AtOwn p \<Rightarrow>
          (case promises w p of
             Pending \<Rightarrow> (AtOwn p, [], w)
           | Rejected err \<Rightarrow> (Finished (Throws err), [], w)
           | Resolved \<Rightarrow>
               (let w1 = modify r (\<lambda>h. h\<lparr>connectionPromise := None\<rparr>) w
                in if client (heap w1 r) = None
                   then (Finished (Throws ''Failed to establish MCP connection''), [], w1)
                   else (let w2 = modify r (\<lambda>h. h\<lparr>lastUsed := dateNow e\<rparr>) w1
                         in (Finished (Returns (client (heap w2 r))), [], w2))))
      | Finished out \<Rightarrow> (Finished out, [], w))"

text \<open>
  \<open>await handle.connect(transport)\<close> with nothing else running in between: the
  \<open>doConnect\<close> just started runs to its end, then the call resumes. A call passes at
  most three \<open>await\<close>s; one that still waits after that waits for a promise nobody
  settles.
\<close>

definition connect_round ::
  "env \<Rightarrow> nat \<Rightarrow> nat \<Rightarrow> connect_at \<times> attempt list \<times> world \<Rightarrow> connect_at \<times> attempt list \<times> world" where
  "connect_round e r t s =
     (case s of (at, as, w) \<Rightarrow> connect_resume e r t at (fold (doConnect_run e r) as w))"

definition connect_finish ::
  "env \<Rightarrow> nat \<Rightarrow> nat \<Rightarrow> connect_at \<times> attempt list \<times> world \<Rightarrow> nat option outcome \<times> world" where
  "connect_finish e r t s =
     (case connect_round e r t (connect_round e r t (connect_round e r t s)) of
        (Finished out, as, w) \<Rightarrow> (out, w)
      | (at, as, w) \<Rightarrow> (Pends, w))"

definition connect :: "env \<Rightarrow> nat \<Rightarrow> nat \<Rightarrow> world \<Rightarrow> nat option outcome \<times> world" where
  "connect e r t w = connect_finish e r t (connect_call r t w)"

definition connect_nodes :: "env \<Rightarrow> nat \<Rightarrow> nat \<Rightarrow> world \<Rightarrow> nat option outcome \<times> world" where
  "connect_nodes e r t w = connect_finish e r t (connect_call_nodes e r t w)"

subsection \<open>Several callers of \<open>connect\<close> at once\<close>

text \<open>
  Callers that call \<open>connect\<close> on one session manager in the same run of the event
  loop, each with its own transport (as \<open>Promise.all(ts.map(t => m.connect(t)))\<close>
  does): every call runs to its first \<open>await\<close>, in order; the \<open>doConnect\<close>s started
  run to their end; then the callers resume, one after the other, in the order
  \<open>order\<close> of their indices. \<open>call\<close> is \<open>connect_call\<close> or \<open>connect_call_nodes e\<close>.
\<close>

fun connect_calls ::
  "(nat \<Rightarrow> nat \<Rightarrow> world \<Rightarrow> connect_at \<times> attempt list \<times> world) \<Rightarrow> nat \<Rightarrow> nat list \<Rightarrow> world
     \<Rightarrow> connect_at list \<times> attempt list \<times> world" where
  "connect_calls call r [] w = ([], [], w)"
| "connect_calls call r (t # ts) w =
     (case call r t w of
        (at, as, w1) \<Rightarrow>
          (case connect_calls call r ts w1 of
             (ats, as', w2) \<Rightarrow> (at # ats, as @ as', w2)))"

fun resume_callers ::
  "env \<Rightarrow> nat \<Rightarrow> nat list \<Rightarrow> nat list \<Rightarrow> connect_at list \<times> attempt list \<times> world
     \<Rightarrow> connect_at list \<times> attempt list \<times> world" where
  "resume_callers e r ts [] s = s"
| "resume_callers e r ts (i # is) (ats, as, w) =
     (if i < length ats \<and> i < length ts
      then (case connect_resume e r (ts ! i) (ats ! i) w of
              (at, as', w1) \<Rightarrow> resume_callers e r ts is (ats[i := at], as @ as', w1))
      else resume_callers e r ts is (ats, as, w))"

definition concurrent_connects ::
  "(nat \<Rightarrow> nat \<Rightarrow> world \<Rightarrow> connect_at \<times> attempt list \<times> world) \<Rightarrow> env \<Rightarrow> nat \<Rightarrow> nat list
     \<Rightarrow> nat list \<Rightarrow> world \<Rightarrow> connect_at list \<times> attempt list \<times> world" where
  "concurrent_connects call e r ts order w =
     (case connect_calls call r ts w of
        (ats, as, w1) \<Rightarrow> resume_callers e r ts order (ats, [], fold (doConnect_run e r) as w1))"

subsection \<open>The registry and the sweep\<close>

text \<open>\<open>startCleanupTimer\<close> (part_000 lines 227-231).\<close>

definition startCleanupTimer :: "nat \<Rightarrow> world \<Rightarrow> world" where
  "startCleanupTimer r w =
     (let tm = fresh w
      in modify r (\<lambda>h. h\<lparr>cleanupTimer := Some tm\<rparr>)
           (emit (SetTimeout tm CLEANUP_INTERVAL) (w\<lparr>fresh := Suc tm\<rparr>)))"

text \<open>The field initialisers and the constructor (lines 10-26).\<close>

definition newSessionManager :: "env \<Rightarrow> string \<Rightarrow> world \<Rightarrow> nat \<times> world" where
  "newSessionManager e sid w =
     (let r = fresh w;
          h = \<lparr>client = None, transport = None, isConnected = False, connectionPromise = None,
               lastUsed = dateNow e, sessionId = sid, cleanupTimer = None\<rparr>
      in (r, startCleanupTimer r (w\<lparr>fresh := Suc r, heap := (heap w)(r := h)\<rparr>)))"

text \<open>\<open>getInstance\<close> (lines 33-40).\<close>

definition getInstance :: "env \<Rightarrow> string \<Rightarrow> world \<Rightarrow> nat \<times> world" where
  "getInstance e sid w =
     (case map_of (instances w) sid of
        Some r \<Rightarrow> (r, modify r (\<lambda>h. h\<lparr>lastUsed := dateNow e\<rparr>) w)
      | None \<Rightarrow>
          (case newSessionManager e sid w of
             (r, w1) \<Rightarrow>
               (r, modify r (\<lambda>h. h\<lparr>lastUsed := dateNow e\<rparr>)
                     (w1\<lparr>instances := instances w1 @ [(sid, r)]\<rparr>))))"

text \<open>
  \<open>checkAndCleanupExpiredSessions\<close> (part_000 lines 236-262, the nodes file lines
  201-227), run by the timer of the session manager \<open>this\<close>. \<open>cleanup()\<close> is called and
  not awaited: the loop goes on when the call reaches its \<open>await\<close>, and the function
  hands back the cleanups still waiting for their transport to close.
\<close>

definition expiredSessions :: "int \<Rightarrow> world \<Rightarrow> string list" where
  "expiredSessions tnow w =
     map fst (filter (\<lambda>(sid, r). tnow - lastUsed (heap w r) > SESSION_TIMEOUT) (instances w))"

fun cleanupExpired :: "string list \<Rightarrow> (nat \<times> nat) list \<times> world \<Rightarrow> (nat \<times> nat) list \<times> world" where
  "cleanupExpired [] s = s"
| "cleanupExpired (sid # sids) (pend, w) =
     (case map_of (instances w) sid of
        None \<Rightarrow> cleanupExpired sids (pend, w)
      | Some r \<Rightarrow>
          (case cleanup_call r w of
             (closing, w1) \<Rightarrow>
               (let w2 = w1\<lparr>instances := filter (\<lambda>(k, v). k \<noteq> sid) (instances w1)\<rparr>;
                    w3 = emit (ConsoleLog (''Expired MCP session '' @ sid @ '' removed'')) w2
                in cleanupExpired sids
                     (pend @ (case closing of Some t \<Rightarrow> [(r, t)] | None \<Rightarrow> []), w3))))"

definition checkAndCleanupExpiredSessions ::
  "env \<Rightarrow> nat \<Rightarrow> world \<Rightarrow> (nat \<times> nat) list \<times> world" where
  "checkAndCleanupExpiredSessions e this w =
     (case cleanupExpired (expiredSessions (dateNow e) w) ([], w) of
        (pend, w1) \<Rightarrow>
          (pend, if instances w1 \<noteq> [] then startCleanupTimer this w1 else w1))"

text \<open>The cleanups left waiting, each resumed when its transport's close settles.\<close>

definition settle_cleanups :: "env \<Rightarrow> (nat \<times> nat) list \<Rightarrow> world \<Rightarrow> world" where
  "settle_cleanups e pend w = fold (\<lambda>(r, t). cleanup_resume r (closeError e t)) pend w"

text \<open>
  \<open>cleanupAllSessions\<close> (part_000 lines 267-277, the nodes file lines 232-242): the loop
  calls \<open>cleanup()\<close> on every instance, \<open>Promise.all\<close> waits for all of them, then
  the map is cleared.
\<close>

fun cleanup_calls :: "nat list \<Rightarrow> world \<Rightarrow> (nat \<times> nat) list \<times> world" where
  "cleanup_calls [] w = ([], w)"
| "cleanup_calls (r # rs) w =
     (case cleanup_call r w of
        (closing, w1) \<Rightarrow>
          (case cleanup_calls rs w1 of
             (pend, w2) \<Rightarrow> ((case closing of Some t \<Rightarrow> [(r, t)] | None \<Rightarrow> []) @ pend, w2)))"

definition cleanupAllSessions :: "env \<Rightarrow> world \<Rightarrow> unit outcome \<times> world" where
  "cleanupAllSessions e w =
     (case cleanup_calls (map snd (instances w)) w of
        (pend, w1) \<Rightarrow>
          (let w2 = settle_cleanups e pend w1;
               w3 = emit (ConsoleLog ''All MCP sessions cleaned up'') (w2\<lparr>instances := []\<rparr>)
           in (Returns (), w3)))"


subsection \<open>The invariant of a session without a connection\<close>

text \<open>
  A session that is not connected holds no resource: neither a client nor a transport
  (the spec's invariant), and its weaker form that speaks of the client only.
\<close>

definition holdsNoResource :: "handle \<Rightarrow> bool" where
  "holdsNoResource h = (\<not> isConnected h \<longrightarrow> client h = None \<and> transport h = None)"

definition holdsNoClient :: "handle \<Rightarrow> bool" where
  "holdsNoClient h = (\<not> isConnected h \<longrightarrow> client h = None)"

subsection \<open>Worlds to run the code in\<close>

text \<open>
  The world at program start, with the static map \<open>instances\<close> empty and nothing
  allocated; an outside where every awaited call succeeds, at a given reading of the
  clock; and the world after \<open>getInstance('s')\<close> and a first successful \<open>connect\<close> with
  transport 77, in which the session manager is object 0 and its client object 3.
\<close>

definition blankHandle :: handle where
  "blankHandle = \<lparr>client = None, transport = None, isConnected = False, connectionPromise = None,
                   lastUsed = 0, sessionId = [], cleanupTimer = None\<rparr>"

definition startWorld :: world where
  "startWorld = \<lparr>heap = (\<lambda>r. blankHandle), instances = [], promises = (\<lambda>p. Pending),
                  fresh = 0, trace = []\<rparr>"

definition calm :: "int \<Rightarrow> env" where
  "calm tnow = \<lparr>dateNow = tnow, closeError = (\<lambda>t. None), connectError = (\<lambda>t. None),
                listToolsError = (\<lambda>c. None)\<rparr>"

definition connectedWorld :: world where
  "connectedWorld = snd (connect (calm 1000) 0 77 (snd (getInstance (calm 1000) ''s'' startWorld)))"


text \<open>
  The world after \<open>getInstance('s')\<close> alone (the session manager is object 0, not yet
  connected); that world after a first caller has called \<open>connect\<close> with transport 77
  and stands at its \<open>await\<close> while the \<open>doConnect\<close> with promise 2 is in flight; and an
  outside where every handshake is refused.
\<close>

definition freshWorld :: world where
  "freshWorld = snd (getInstance (calm 1000) ''s'' startWorld)"

definition inFlightWorld :: world where
  "inFlightWorld = snd (snd (connect_call 0 77 freshWorld))"

definition failing :: "int \<Rightarrow> env" where
  "failing tnow = (calm tnow)\<lparr>connectError := (\<lambda>t. Some ''refused'')\<rparr>"

text \<open>
  A race with \<open>cleanup\<close>. On the new session manager, caller A calls \<open>connect\<close> with
  transport 77 and starts the \<open>doConnect\<close> with promise 2; caller B calls \<open>connect\<close>
  with transport 78 and waits for that promise; \<open>doConnect\<close> creates client 3 and
  starts the handshake; \<open>cleanup()\<close> is called on the session manager (no transport is
  set yet, so it runs to its end at once and clears the client); the handshake
  succeeds and \<open>doConnect\<close> resolves its promise; caller A resumes. \<open>raceWorld\<close> is the
  world in which caller B is about to resume.
\<close>

definition raceWorld :: world where
  "raceWorld =
     (let w1 = snd (getInstance (calm 1000) ''s'' startWorld);
          w2 = snd (snd (connect_call 0 77 w1));
          w3 = snd (snd (connect_call 0 78 w2));
          w4 = snd (doConnect_resume (calm 1000) 0 (2, 77, AfterCleanup) w3);
          w5 = snd (cleanup (calm 1000) 0 w4);
          w6 = snd (doConnect_resume (calm 1000) 0 (2, 77, InHandshake 3) w5)
      in snd (snd (connect_resume (calm 2000) 0 77 (AtOwn 2) w6)))"


text \<open>
  \<open>connectedWorld\<close> after a later \<open>getInstance('t')\<close>, at time 1500000: two sessions, the
  connected \<open>'s'\<close> (object 0, last used at time 1000) and the new \<open>'t'\<close> (object 4, with
  timer 5).
\<close>

definition twoSessionsWorld :: world where
  "twoSessionsWorld = snd (getInstance (calm 1500000) ''t'' connectedWorld)"


subsection \<open>Notions used in the proofs\<close>

text \<open>The value of a digit character, to read a radix string back.\<close>

definition digitVal :: "char \<Rightarrow> int" where
  "digitVal c = (if (of_char c :: int) < 58 then of_char c - 48 else of_char c - 87)"

text \<open>\<open>Number.isSafeInteger\<close>: the integers that a number value holds exactly.\<close>

definition safeInteger :: "number \<Rightarrow> bool" where
  "safeInteger v = (case v of Integral i \<Rightarrow> \<bar>i\<bar> < 2 ^ 53 | _ \<Rightarrow> False)"

text \<open>The world once the \<open>doConnect\<close> started by \<open>connect_attempt\<close> has run to its end.\<close>

definition attempted :: "env \<Rightarrow> nat \<Rightarrow> nat \<Rightarrow> world \<Rightarrow> world" where
  "attempted e r t w =
     (case connect_attempt r t w of (at, as, w1) \<Rightarrow> fold (doConnect_run e r) as w1)"

text \<open>What a \<open>connect\<close> that runs its own \<open>doConnect\<close> ends with.\<close>

definition attempt_result :: "env \<Rightarrow> nat \<Rightarrow> nat \<Rightarrow> world \<Rightarrow> nat option outcome \<times> world" where
  "attempt_result e r t w =
     (case connectError e t of
        None \<Rightarrow>
          (Returns (Some (Suc (fresh w))),
           modify r (\<lambda>h. h\<lparr>lastUsed := dateNow e\<rparr>)
             (modify r (\<lambda>h. h\<lparr>connectionPromise := None\<rparr>) (attempted e r t w)))
      | Some m \<Rightarrow>
          (Throws (''Failed to connect MCP session '' @ sessionId (heap w r) @ '': '' @ m),
           attempted e r t w))"

text \<open>The state of a session once the attempt with promise \<open>p\<close> has ended with \<open>out\<close>.\<close>

definition settled :: "nat \<Rightarrow> nat option outcome \<Rightarrow> nat \<Rightarrow> world \<Rightarrow> bool" where
  "settled p out r w =
     (case out of
        Returns v \<Rightarrow> promises w p = Resolved \<and> isConnected (heap w r) \<and> client (heap w r) = v \<and> v \<noteq> None
      | Throws m \<Rightarrow> promises w p = Rejected m
      | Pends \<Rightarrow> False)"

text \<open>A session's fields after a call of \<open>cleanup\<close> has reached its \<open>await\<close> or its end,
  and after a \<open>cleanup\<close> that waited has resumed.\<close>

definition afterCall :: "handle \<Rightarrow> handle" where
  "afterCall h =
     (case transport h of
        Some t \<Rightarrow> h\<lparr>cleanupTimer := None\<rparr>
      | None \<Rightarrow> h\<lparr>cleanupTimer := None, client := None, isConnected := False\<rparr>)"

definition afterClose :: "handle \<Rightarrow> handle" where
  "afterClose h = h\<lparr>transport := None, client := None, isConnected := False\<rparr>"

text \<open>One turn of the loop of lines 247-256, for the session \<open>sid\<close> found at \<open>r\<close>.\<close>

definition expire :: "string \<Rightarrow> nat \<Rightarrow> world \<Rightarrow> world" where
  "expire sid r w =
     emit (ConsoleLog (''Expired MCP session '' @ sid @ '' removed''))
       ((snd (cleanup_call r w))\<lparr>instances := filter (\<lambda>(k, v). k \<noteq> sid) (instances w)\<rparr>)"

text \<open>The events that are neither a new timer, nor a new client, nor a handshake.\<close>

definition quiet :: "event \<Rightarrow> bool" where
  "quiet ev = (case ev of SetTimeout tm d \<Rightarrow> False | NewClient c \<Rightarrow> False
                | ClientConnect c t \<Rightarrow> False | _ \<Rightarrow> True)"

text \<open>A connected session has no attempt recorded.\<close>

definition noStaleAttempt :: "handle \<Rightarrow> bool" where
  "noStaleAttempt h = (isConnected h \<and> client h \<noteq> None \<longrightarrow> connectionPromise h = None)"

text \<open>The world after a failed validation inside \<open>connect\<close> (lines 82-84).\<close>

definition invalidated :: "nat \<Rightarrow> nat \<Rightarrow> world \<Rightarrow> world" where
  "invalidated r c w =
     modify r (\<lambda>h. h\<lparr>isConnected := False, client := None\<rparr>)
       (emit (ConsoleLog (''Session '' @ sessionId (heap w r)
                          @ '' connection validation failed, reconnecting...''))
          (case transport (heap w r) of None \<Rightarrow> w | Some t0 \<Rightarrow> emit (ListTools c) w))"

section \<open>Properties of the identity derivation\<close>

subsection \<open>Radix strings\<close>

lemma of_char_digitChar:
  "0 \<le> d \<Longrightarrow> d < 36 \<Longrightarrow> (of_char (digitChar d) :: int) = (if d < 10 then 48 + d else 87 + d)"
  by (simp add: digitChar_def)

lemma digitVal_digitChar: "0 \<le> d \<Longrightarrow> d < 36 \<Longrightarrow> digitVal (digitChar d) = d"
  by (simp add: digitVal_def of_char_digitChar)

lemma digitChar_not_sep:
  assumes "0 \<le> d" "d < 36"
  shows "digitChar d \<noteq> CHR ''_''" and "digitChar d \<noteq> CHR ''-''"
proof -
  have "(of_char (digitChar d) :: int) \<noteq> 95" "(of_char (digitChar d) :: int) \<noteq> 45"
    using assms by (auto simp: of_char_digitChar)
  then show "digitChar d \<noteq> CHR ''_''" and "digitChar d \<noteq> CHR ''-''"
    by auto
qed

lemma digitChar_not_capital:
  assumes "0 \<le> d" "d < 36"
  shows "digitChar d \<noteq> CHR ''N''" and "digitChar d \<noteq> CHR ''I''"
proof -
  have "(of_char (digitChar d) :: int) \<noteq> 78" "(of_char (digitChar d) :: int) \<noteq> 73"
    using assms by (auto simp: of_char_digitChar)
  then show "digitChar d \<noteq> CHR ''N''" and "digitChar d \<noteq> CHR ''I''"
    by auto
qed

lemma toRadix_chars:
  "0 \<le> n \<Longrightarrow> 2 \<le> b \<Longrightarrow> b \<le> 36 \<Longrightarrow> c \<in> set (toRadix b n) \<Longrightarrow> \<exists>d. 0 \<le> d \<and> d < 36 \<and> c = digitChar d"
proof (induction b n rule: toRadix.induct)
  case (1 b n)
  show ?case
  proof (cases "n < b")
    case True
    with 1 show ?thesis by (auto simp: toRadix.simps [of b n])
  next
    case False
    with 1 have "c \<in> set (toRadix b (n div b)) \<or> c = digitChar (n mod b)"
      by (auto simp: toRadix.simps [of b n])
    then show ?thesis
    proof
      assume "c \<in> set (toRadix b (n div b))"
      moreover have "0 \<le> n div b" using 1 by (simp add: pos_imp_zdiv_nonneg_iff)
      ultimately show ?thesis using 1 False by auto
    next
      assume "c = digitChar (n mod b)"
      moreover have "0 \<le> n mod b" "n mod b < 36" using 1 by (auto intro: order_less_le_trans [OF pos_mod_bound])
      ultimately show ?thesis by blast
    qed
  qed
qed

lemma toRadix_inverse:
  "0 \<le> n \<Longrightarrow> 2 \<le> b \<Longrightarrow> b \<le> 36 \<Longrightarrow> foldl (\<lambda>a c. a * b + digitVal c) 0 (toRadix b n) = n"
proof (induction b n rule: toRadix.induct)
  case (1 b n)
  show ?case
  proof (cases "n < b")
    case True
    with 1 show ?thesis by (simp add: toRadix.simps [of b n] digitVal_digitChar)
  next
    case False
    have nn: "0 \<le> n div b" using 1 by (simp add: pos_imp_zdiv_nonneg_iff)
    have md: "0 \<le> n mod b" "n mod b < 36" using 1 by (auto intro: order_less_le_trans [OF pos_mod_bound])
    have "foldl (\<lambda>a c. a * b + digitVal c) 0 (toRadix b (n div b)) = n div b"
      using 1 False nn by auto
    then show ?thesis using False 1(3) md
      by (simp add: toRadix.simps [of b n] digitVal_digitChar)
  qed
qed

lemma toRadix_inj:
  assumes "0 \<le> m" "0 \<le> n" "toRadix 36 m = toRadix 36 n"
  shows "m = n"
proof -
  have "m = foldl (\<lambda>a c. a * 36 + digitVal c) 0 (toRadix 36 m)"
    using assms(1) by (simp add: toRadix_inverse)
  also have "\<dots> = foldl (\<lambda>a c. a * 36 + digitVal c) 0 (toRadix 36 n)"
    by (simp only: assms(3))
  also have "\<dots> = n"
    using assms(2) by (simp add: toRadix_inverse)
  finally show ?thesis .
qed

lemma toRadix_nonempty: "toRadix b n \<noteq> []"
  by (simp add: toRadix.simps [of b n])

lemma numberToString36_no_sep: "CHR ''_'' \<notin> set (numberToString 36 t)"
proof
  assume a: "CHR ''_'' \<in> set (numberToString 36 t)"
  show False
  proof (cases "t < 0")
    case True
    with a have "CHR ''_'' \<in> set (toRadix 36 (- t))" by (simp add: numberToString_def)
    with True obtain d where "0 \<le> d" "d < 36" "CHR ''_'' = digitChar d"
      using toRadix_chars [of "- t" 36 "CHR ''_''"] by auto
    then show False using digitChar_not_sep(1) [of d] by simp
  next
    case False
    with a have "CHR ''_'' \<in> set (toRadix 36 t)" by (simp add: numberToString_def)
    with False obtain d where "0 \<le> d" "d < 36" "CHR ''_'' = digitChar d"
      using toRadix_chars [of t 36 "CHR ''_''"] by auto
    then show False using digitChar_not_sep(1) [of d] by simp
  qed
qed

lemma toRadix_no_minus: "0 \<le> n \<Longrightarrow> CHR ''-'' \<notin> set (toRadix 36 n)"
proof
  assume "0 \<le> n" and "CHR ''-'' \<in> set (toRadix 36 n)"
  then obtain d where "0 \<le> d" "d < 36" "CHR ''-'' = digitChar d"
    using toRadix_chars [of n 36 "CHR ''-''"] by auto
  then show False using digitChar_not_sep(2) [of d] by simp
qed

lemma toRadix_no_capital:
  assumes "0 \<le> n"
  shows "CHR ''N'' \<notin> set (toRadix 36 n)" and "CHR ''I'' \<notin> set (toRadix 36 n)"
proof -
  show "CHR ''N'' \<notin> set (toRadix 36 n)"
  proof
    assume "CHR ''N'' \<in> set (toRadix 36 n)"
    then obtain d where "0 \<le> d" "d < 36" "CHR ''N'' = digitChar d"
      using assms toRadix_chars [of n 36 "CHR ''N''"] by auto
    then show False using digitChar_not_capital(1) [of d] by simp
  qed
  show "CHR ''I'' \<notin> set (toRadix 36 n)"
  proof
    assume "CHR ''I'' \<in> set (toRadix 36 n)"
    then obtain d where "0 \<le> d" "d < 36" "CHR ''I'' = digitChar d"
      using assms toRadix_chars [of n 36 "CHR ''I''"] by auto
    then show False using digitChar_not_capital(2) [of d] by simp
  qed
qed

lemma numberToString36_inj:
  assumes "numberToString 36 s = numberToString 36 t"
  shows "s = t"
proof (cases "s < 0"; cases "t < 0")
  assume "s < 0" "t < 0"
  with assms have "toRadix 36 (- s) = toRadix 36 (- t)" by (simp add: numberToString_def)
  with \<open>s < 0\<close> \<open>t < 0\<close> have "- s = - t" by (intro toRadix_inj) auto
  then show ?thesis by simp
next
  assume st: "s < 0" "\<not> t < 0"
  with assms have "CHR ''-'' # toRadix 36 (- s) = toRadix 36 t" by (simp add: numberToString_def)
  then have "CHR ''-'' \<in> set (toRadix 36 t)" by (metis list.set_intros(1))
  with st show ?thesis using toRadix_no_minus [of t] by simp
next
  assume st: "\<not> s < 0" "t < 0"
  with assms have "toRadix 36 s = CHR ''-'' # toRadix 36 (- t)" by (simp add: numberToString_def)
  then have "CHR ''-'' \<in> set (toRadix 36 s)" by (metis list.set_intros(1))
  with st show ?thesis using toRadix_no_minus [of s] by simp
next
  assume st: "\<not> s < 0" "\<not> t < 0"
  with assms have "toRadix 36 s = toRadix 36 t" by (simp add: numberToString_def)
  with st show ?thesis by (intro toRadix_inj) auto
qed

text \<open>
  The names of the values that are not finite begin with a capital letter, after the
  sign; no radix-36 digit is one, so no integer is rendered as one of these names.
\<close>

lemma numberToString36_no_capital:
  shows "CHR ''N'' \<notin> set (numberToString 36 i)" and "CHR ''I'' \<notin> set (numberToString 36 i)"
proof -
  show "CHR ''N'' \<notin> set (numberToString 36 i)"
    using toRadix_no_capital(1) [of i] toRadix_no_capital(1) [of "- i"]
    by (cases "i < 0") (simp_all add: numberToString_def)
  show "CHR ''I'' \<notin> set (numberToString 36 i)"
    using toRadix_no_capital(2) [of i] toRadix_no_capital(2) [of "- i"]
    by (cases "i < 0") (simp_all add: numberToString_def)
qed

lemma numberToString36_not_name:
  "numberToString 36 i \<noteq> ''NaN''"
  "numberToString 36 i \<noteq> ''Infinity''"
  "numberToString 36 i \<noteq> ''-Infinity''"
proof -
  show "numberToString 36 i \<noteq> ''NaN''"
  proof
    assume "numberToString 36 i = ''NaN''"
    then have "CHR ''N'' \<in> set (numberToString 36 i)" by simp
    then show False using numberToString36_no_capital(1) by simp
  qed
  show "numberToString 36 i \<noteq> ''Infinity''"
  proof
    assume "numberToString 36 i = ''Infinity''"
    then have "CHR ''I'' \<in> set (numberToString 36 i)" by simp
    then show False using numberToString36_no_capital(2) by simp
  qed
  show "numberToString 36 i \<noteq> ''-Infinity''"
  proof
    assume "numberToString 36 i = ''-Infinity''"
    then have "CHR ''I'' \<in> set (numberToString 36 i)" by simp
    then show False using numberToString36_no_capital(2) by simp
  qed
qed

lemma Number_toString36_no_sep: "CHR ''_'' \<notin> set (Number_toString 36 v)"
  using numberToString36_no_sep by (cases v) (simp_all add: Number_toString_def)

lemma Number_toString36_inj:
  assumes "Number_toString 36 s = Number_toString 36 t"
  shows "s = t"
proof (cases s)
  case (Integral i)
  then show ?thesis
    using assms numberToString36_inj numberToString36_not_name [of i]
    by (cases t) (auto simp: Number_toString_def)
next
  case NaN
  then show ?thesis
    using assms numberToString36_not_name(1) [symmetric]
    by (cases t) (auto simp: Number_toString_def)
next
  case Infinity
  then show ?thesis
    using assms numberToString36_not_name(2) [symmetric]
    by (cases t) (auto simp: Number_toString_def)
next
  case NegInfinity
  then show ?thesis
    using assms numberToString36_not_name(3) [symmetric]
    by (cases t) (auto simp: Number_toString_def)
qed

lemma prefix_before_sep:
  "x \<notin> set as \<Longrightarrow> x \<notin> set bs \<Longrightarrow> as @ x # cs = bs @ x # ds \<Longrightarrow> as = bs"
proof (induction as arbitrary: bs)
  case Nil
  then show ?case by (cases bs) auto
next
  case (Cons a as)
  then show ?case by (cases bs) auto
qed

lemma id_suffix_inj:
  assumes "a @ ''_'' @ Number_toString 36 s = b @ ''_'' @ Number_toString 36 t"
  shows "s = t"
proof -
  have "rev (a @ ''_'' @ Number_toString 36 s) = rev (b @ ''_'' @ Number_toString 36 t)"
    using assms by (rule arg_cong)
  then have "rev (Number_toString 36 s) @ CHR ''_'' # rev a =
             rev (Number_toString 36 t) @ CHR ''_'' # rev b"
    by simp
  moreover have "CHR ''_'' \<notin> set (rev (Number_toString 36 s))"
                "CHR ''_'' \<notin> set (rev (Number_toString 36 t))"
    using Number_toString36_no_sep by simp_all
  ultimately have "rev (Number_toString 36 s) = rev (Number_toString 36 t)"
    by (metis prefix_before_sep)
  then show ?thesis using Number_toString36_inj by simp
qed

lemma timestampOf_withTimestamp: "timestampOf (withTimestamp cfg v) = Some v"
  by (induction cfg v rule: withTimestamp.induct) auto

lemma ToBoolean_iff: "ToBoolean v \<longleftrightarrow> v \<noteq> Integral 0 \<and> v \<noteq> NaN"
  by (cases v) (simp_all add: ToBoolean_def)

text \<open>Two calls that derive the same id have put the same number into it.\<close>

lemma generateSessionId_salt:
  assumes "generateSessionId n1 c1 = generateSessionId n2 c2"
  shows "(case timestampOf c1 of
            None \<Rightarrow> Integral n1 | Some t \<Rightarrow> if ToBoolean t then t else Integral n1) =
         (case timestampOf c2 of
            None \<Rightarrow> Integral n2 | Some t \<Rightarrow> if ToBoolean t then t else Integral n2)"
    (is "?T1 = ?T2")
proof -
  let ?A1 = "numberToString 36 \<bar>sint (hashString (JSON_stringify c1 @ ''_'' @ Number_toString 10 ?T1))\<bar>"
  let ?A2 = "numberToString 36 \<bar>sint (hashString (JSON_stringify c2 @ ''_'' @ Number_toString 10 ?T2))\<bar>"
  have "(''mcp_session_'' @ ?A1) @ ''_'' @ Number_toString 36 ?T1 =
        (''mcp_session_'' @ ?A2) @ ''_'' @ Number_toString 36 ?T2"
    using assms unfolding generateSessionId_def Let_def by simp
  then show ?thesis by (rule id_suffix_inj)
qed

lemma generateSessionId_clock_free:
  assumes "timestampOf cfg = Some t" "ToBoolean t"
  shows "generateSessionId now1 cfg = generateSessionId now2 cfg"
  using assms by (simp add: generateSessionId_def)

lemma generateSessionId_clock:
  assumes "timestampOf cfg = None \<or> timestampOf cfg = Some (Integral 0) \<or> timestampOf cfg = Some NaN"
  shows "generateSessionId now cfg =
           ''mcp_session_''
           @ numberToString 36 \<bar>sint (hashString (JSON_stringify cfg @ ''_'' @ numberToString 10 now))\<bar>
           @ ''_'' @ numberToString 36 now"
  using assms by (auto simp: generateSessionId_def ToBoolean_def Number_toString_def)


subsection \<open>Determinism\<close>

text \<open>
  Claim C2, as amended. \<open>generateSessionId\<close> of the nodes file reads nothing but its
  argument. The one of part_000 also reads the clock: the id of a configuration is the
  same at every reading of the clock when the configuration carries a \<open>timestamp\<close>
  that is neither \<open>0\<close> nor \<open>NaN\<close>; with the \<open>timestamp\<close> absent, \<open>0\<close> or \<open>NaN\<close> the
  reading of the clock takes its place, and two calls on equal configurations give equal
  ids only when they read the same time.
\<close>

theorem generateSessionId_deterministic:
  assumes "c1 = c2"
  shows "generateSessionId_nodes c1 = generateSessionId_nodes c2 \<and>
         (\<forall>t. timestampOf c1 = Some t \<and> t \<noteq> Integral 0 \<and> t \<noteq> NaN \<longrightarrow>
              generateSessionId now1 c1 = generateSessionId now2 c2) \<and>
         (timestampOf c1 = None \<or> timestampOf c1 = Some (Integral 0) \<or> timestampOf c1 = Some NaN \<longrightarrow>
              (generateSessionId now1 c1 = generateSessionId now2 c2) = (now1 = now2))"
proof (intro conjI allI impI)
  show "generateSessionId_nodes c1 = generateSessionId_nodes c2"
    using assms by simp
next
  fix t assume "timestampOf c1 = Some t \<and> t \<noteq> Integral 0 \<and> t \<noteq> NaN"
  then show "generateSessionId now1 c1 = generateSessionId now2 c2"
    using assms generateSessionId_clock_free [of c1 t now1 now2] by (simp add: ToBoolean_iff)
next
  assume a: "timestampOf c1 = None \<or> timestampOf c1 = Some (Integral 0) \<or> timestampOf c1 = Some NaN"
  show "(generateSessionId now1 c1 = generateSessionId now2 c2) = (now1 = now2)"
  proof
    assume "generateSessionId now1 c1 = generateSessionId now2 c2"
    then show "now1 = now2"
      using generateSessionId_salt [of now1 c1 now2 c2] a assms by (auto simp: ToBoolean_def)
  next
    assume "now1 = now2"
    then show "generateSessionId now1 c1 = generateSessionId now2 c2"
      using assms by simp
  qed
qed

theorem generateSessionId_deterministic_witness:
  "generateSessionId_nodes [ConnectionType ''stdio''] = generateSessionId_nodes [ConnectionType ''stdio''] \<and>
   generateSessionId 1 [ConnectionType ''stdio'', Timestamp (Integral 5)] =
     generateSessionId 2 [ConnectionType ''stdio'', Timestamp (Integral 5)] \<and>
   generateSessionId 1 [ConnectionType ''stdio'', Timestamp Infinity] =
     generateSessionId 2 [ConnectionType ''stdio'', Timestamp Infinity] \<and>
   generateSessionId 7 [ConnectionType ''stdio'', Timestamp (Integral 0)] =
     generateSessionId 7 [ConnectionType ''stdio'', Timestamp (Integral 0)] \<and>
   generateSessionId 1 [ConnectionType ''stdio'', Timestamp NaN] \<noteq>
     generateSessionId 2 [ConnectionType ''stdio'', Timestamp NaN]"
  using generateSessionId_deterministic
          [of "[ConnectionType ''stdio'', Timestamp (Integral 5)]"
              "[ConnectionType ''stdio'', Timestamp (Integral 5)]" 1 2]
        generateSessionId_deterministic
          [of "[ConnectionType ''stdio'', Timestamp Infinity]"
              "[ConnectionType ''stdio'', Timestamp Infinity]" 1 2]
        generateSessionId_deterministic
          [of "[ConnectionType ''stdio'', Timestamp (Integral 0)]"
              "[ConnectionType ''stdio'', Timestamp (Integral 0)]" 7 7]
        generateSessionId_deterministic
          [of "[ConnectionType ''stdio'', Timestamp NaN]"
              "[ConnectionType ''stdio'', Timestamp NaN]" 1 2]
  by simp

text \<open>
  The claim as stated, with the salt absent in both calls, fails for part_000: the same
  configuration, read at two different times, gives two ids.
\<close>

theorem generateSessionId_absent_salt_counterexample:
  "generateSessionId 1 [ConnectionType ''stdio''] \<noteq> generateSessionId 2 [ConnectionType ''stdio'']"
  by code_simp


subsection \<open>Forced-fresh ids\<close>

text \<open>
  Claim C9, as amended. Two distinct salts, each a safe integer other than \<open>0\<close> or one
  of the infinities, put on the same configuration, give two distinct ids, whatever the
  clock reads; so do two calls of \<open>createNewSession\<close>, which puts the current time,
  when the times they read are such salts.
\<close>

theorem forced_fresh_distinct:
  assumes "t1 \<noteq> t2"
    and "safeInteger t1 \<and> t1 \<noteq> Integral 0 \<or> t1 = Infinity \<or> t1 = NegInfinity"
    and "safeInteger t2 \<and> t2 \<noteq> Integral 0 \<or> t2 = Infinity \<or> t2 = NegInfinity"
  shows "generateSessionId now1 (withTimestamp cfg t1) \<noteq> generateSessionId now2 (withTimestamp cfg t2) \<and>
         (\<forall>i j. t1 = Integral i \<and> t2 = Integral j \<longrightarrow>
                createNewSession i now1 cfg \<noteq> createNewSession j now2 cfg)"
proof -
  have tb: "ToBoolean t1" "ToBoolean t2"
    using assms(2,3) by (auto simp: ToBoolean_iff safeInteger_def)
  have ne: "generateSessionId now1 (withTimestamp cfg t1) \<noteq> generateSessionId now2 (withTimestamp cfg t2)"
  proof
    assume "generateSessionId now1 (withTimestamp cfg t1) = generateSessionId now2 (withTimestamp cfg t2)"
    then have "t1 = t2"
      using generateSessionId_salt [of now1 "withTimestamp cfg t1" now2 "withTimestamp cfg t2"] tb
      by (simp add: timestampOf_withTimestamp)
    with assms(1) show False by simp
  qed
  then show ?thesis
    by (auto simp: createNewSession_def)
qed

theorem forced_fresh_distinct_witness:
  "generateSessionId 0 (withTimestamp [ConnectionType ''stdio'', Command ''server'', Args [''--flag'']] (Integral 1705166994916))
   \<noteq> generateSessionId 0 (withTimestamp [ConnectionType ''stdio'', Command ''server'', Args [''--flag'']] (Integral 1705166994917)) \<and>
   createNewSession 1705166994916 0 [ConnectionType ''stdio'', Command ''server'', Args [''--flag'']]
   \<noteq> createNewSession 1705166994917 0 [ConnectionType ''stdio'', Command ''server'', Args [''--flag'']]"
  using forced_fresh_distinct
          [of "Integral 1705166994916" "Integral 1705166994917" 0
              "[ConnectionType ''stdio'', Command ''server'', Args [''--flag'']]" 0]
  by (simp add: safeInteger_def)

text \<open>
  With a salt that is falsy the claim as stated fails, since the current time takes the
  salt's place. A call with salt \<open>0\<close> at time \<open>1705166994916\<close> derives the same id as
  a call with that time as its salt, and a call with salt \<open>NaN\<close> at time
  \<open>1700997445795\<close> the same id as a call with that time as its salt.
\<close>

theorem forced_fresh_zero_salt_counterexample:
  "Integral 0 \<noteq> Integral 1705166994916 \<and>
   generateSessionId 1705166994916 (withTimestamp [ConnectionType ''stdio''] (Integral 0)) =
   generateSessionId 1705166995000 (withTimestamp [ConnectionType ''stdio''] (Integral 1705166994916)) \<and>
   NaN \<noteq> Integral 1700997445795 \<and>
   generateSessionId 1700997445795 (withTimestamp [ConnectionType ''stdio''] NaN) =
   generateSessionId 1700997446000 (withTimestamp [ConnectionType ''stdio''] (Integral 1700997445795))"
  by code_simp


text \<open>
  Claim C10. A \<open>timestamp\<close> of \<open>0\<close> is replaced by the current time exactly as an
  absent one is: in both cases the id is built from the configuration's JSON text and
  the reading of the clock, so with the salt \<open>0\<close> the id of one configuration differs
  between any two readings of the clock.
\<close>

theorem zero_salt_is_absent_salt:
  assumes "timestampOf cfg = Some (Integral 0)" "timestampOf cfg' = None"
  shows "generateSessionId now cfg =
           ''mcp_session_''
           @ numberToString 36 \<bar>sint (hashString (JSON_stringify cfg @ ''_'' @ numberToString 10 now))\<bar>
           @ ''_'' @ numberToString 36 now \<and>
         generateSessionId now cfg' =
           ''mcp_session_''
           @ numberToString 36 \<bar>sint (hashString (JSON_stringify cfg' @ ''_'' @ numberToString 10 now))\<bar>
           @ ''_'' @ numberToString 36 now \<and>
         (now \<noteq> now' \<longrightarrow> generateSessionId now cfg \<noteq> generateSessionId now' cfg)"
proof (intro conjI impI)
  show "generateSessionId now cfg =
           ''mcp_session_''
           @ numberToString 36 \<bar>sint (hashString (JSON_stringify cfg @ ''_'' @ numberToString 10 now))\<bar>
           @ ''_'' @ numberToString 36 now"
    using assms(1) by (rule generateSessionId_clock [OF disjI2, OF disjI1])
next
  show "generateSessionId now cfg' =
           ''mcp_session_''
           @ numberToString 36 \<bar>sint (hashString (JSON_stringify cfg' @ ''_'' @ numberToString 10 now))\<bar>
           @ ''_'' @ numberToString 36 now"
    using assms(2) by (rule generateSessionId_clock [OF disjI1])
next
  assume "now \<noteq> now'"
  then show "generateSessionId now cfg \<noteq> generateSessionId now' cfg"
    using generateSessionId_salt [of now cfg now' cfg] assms(1) by (auto simp: ToBoolean_def)
qed

theorem zero_salt_is_absent_salt_witness:
  "timestampOf [ConnectionType ''stdio'', Timestamp (Integral 0)] = Some (Integral 0) \<and>
   timestampOf [ConnectionType ''stdio''] = None \<and>
   generateSessionId 1705166994916 [ConnectionType ''stdio'', Timestamp (Integral 0)]
     \<noteq> generateSessionId 1705166994917 [ConnectionType ''stdio'', Timestamp (Integral 0)]"
proof -
  have h1: "timestampOf [ConnectionType ''stdio'', Timestamp (Integral 0)] = Some (Integral 0)" by simp
  have h2: "timestampOf [ConnectionType ''stdio''] = None" by simp
  have ne: "(1705166994916::int) \<noteq> 1705166994917" by simp
  show ?thesis
    using zero_salt_is_absent_salt [OF h1 h2, of 1705166994916 1705166994917] h1 h2 ne
    by blast
qed


section \<open>Properties of the session manager\<close>

subsection \<open>What \<open>cleanup\<close> does\<close>

lemma emit_simps [simp]:
  "heap (emit ev w) = heap w" "instances (emit ev w) = instances w"
  "promises (emit ev w) = promises w" "fresh (emit ev w) = fresh w"
  "trace (emit ev w) = trace w @ [ev]"
  by (simp_all add: emit_def)

lemma modify_simps [simp]:
  "heap (modify r f w) = (heap w)(r := f (heap w r))" "instances (modify r f w) = instances w"
  "promises (modify r f w) = promises w" "fresh (modify r f w) = fresh w"
  "trace (modify r f w) = trace w"
  by (simp_all add: modify_def)

lemma cleanup_finish_simps [simp]:
  "heap (cleanup_finish r w) = (heap w)(r := (heap w r)\<lparr>client := None, isConnected := False\<rparr>)"
  "instances (cleanup_finish r w) = instances w"
  "promises (cleanup_finish r w) = promises w" "fresh (cleanup_finish r w) = fresh w"
  "trace (cleanup_finish r w) =
     trace w @ [ConsoleLog (''MCP session '' @ sessionId (heap w r) @ '' cleaned up'')]"
  by (simp_all add: cleanup_finish_def)

lemma cleanup_call_fst: "fst (cleanup_call r w) = transport (heap w r)"
  by (simp add: cleanup_call_def Let_def split: option.splits)

lemma cleanup_call_frame [simp]:
  "instances (snd (cleanup_call r w)) = instances w"
  "promises (snd (cleanup_call r w)) = promises w"
  "fresh (snd (cleanup_call r w)) = fresh w"
  by (simp_all add: cleanup_call_def Let_def split: option.splits)

lemma cleanup_call_heap:
  "heap (snd (cleanup_call r w)) =
     (heap w)(r := (case transport (heap w r) of
                      Some t \<Rightarrow> (heap w r)\<lparr>cleanupTimer := None\<rparr>
                    | None \<Rightarrow> (heap w r)\<lparr>cleanupTimer := None, client := None, isConnected := False\<rparr>))"
  by (auto simp: cleanup_call_def Let_def fun_eq_iff split: option.splits)

lemma cleanup_call_trace:
  "trace (snd (cleanup_call r w)) =
     trace w
     @ (case cleanupTimer (heap w r) of Some tm \<Rightarrow> [ClearTimeout tm] | None \<Rightarrow> [])
     @ (case transport (heap w r) of
          Some t \<Rightarrow> [TransportClose t]
        | None \<Rightarrow> [ConsoleLog (''MCP session '' @ sessionId (heap w r) @ '' cleaned up'')])"
  by (simp add: cleanup_call_def Let_def split: option.splits)

lemma cleanup_resume_frame [simp]:
  "instances (cleanup_resume r err w) = instances w"
  "promises (cleanup_resume r err w) = promises w"
  "fresh (cleanup_resume r err w) = fresh w"
  by (simp_all add: cleanup_resume_def Let_def split: option.splits)

lemma cleanup_resume_heap:
  "heap (cleanup_resume r err w) =
     (heap w)(r := (heap w r)\<lparr>transport := None, client := None, isConnected := False\<rparr>)"
  by (auto simp: cleanup_resume_def Let_def fun_eq_iff split: option.splits)

lemma cleanup_resume_trace:
  "trace (cleanup_resume r err w) =
     trace w
     @ (case err of
          Some m \<Rightarrow> [ConsoleError (''Error closing transport for session ''
                                    @ sessionId (heap w r) @ '': '' @ m)]
        | None \<Rightarrow> [])
     @ [ConsoleLog (''MCP session '' @ sessionId (heap w r) @ '' cleaned up'')]"
  by (simp add: cleanup_resume_def Let_def split: option.splits)

lemma cleanup_fst: "fst (cleanup e r w) = Returns ()"
  by (simp add: cleanup_def split: prod.splits option.splits)

lemma cleanup_snd:
  "snd (cleanup e r w) =
     (case transport (heap w r) of
        None \<Rightarrow> snd (cleanup_call r w)
      | Some t \<Rightarrow> cleanup_resume r (closeError e t) (snd (cleanup_call r w)))"
  using cleanup_call_fst [of r w]
  by (auto simp: cleanup_def split: prod.splits option.splits)

lemma cleanup_heap:
  "heap (snd (cleanup e r w)) =
     (heap w)(r := (heap w r)\<lparr>cleanupTimer := None, transport := None, client := None,
                                 isConnected := False\<rparr>)"
  by (auto simp: cleanup_snd cleanup_call_heap cleanup_resume_heap fun_eq_iff split: option.splits)

lemma cleanup_trace:
  "trace (snd (cleanup e r w)) =
     trace w
     @ (case cleanupTimer (heap w r) of Some tm \<Rightarrow> [ClearTimeout tm] | None \<Rightarrow> [])
     @ (case transport (heap w r) of
          Some t \<Rightarrow>
            TransportClose t #
            (case closeError e t of
               Some m \<Rightarrow> [ConsoleError (''Error closing transport for session ''
                                         @ sessionId (heap w r) @ '': '' @ m)]
             | None \<Rightarrow> [])
        | None \<Rightarrow> [])
     @ [ConsoleLog (''MCP session '' @ sessionId (heap w r) @ '' cleaned up'')]"
  by (auto simp: cleanup_snd cleanup_call_heap cleanup_call_trace cleanup_resume_trace split: option.splits)


text \<open>
  Claim C6. \<open>cleanup\<close> always returns, whatever becomes of the close: afterwards the
  session holds no client and no transport, is not connected and has no timer; the
  timer, if any, has been cleared, the transport, if any, has been closed once, and a
  failure of the close appears on the error console only. A second \<open>cleanup\<close> right
  after it returns as well, leaves every session as it is and only writes its log
  line: it closes nothing and reports no error.
\<close>

theorem cleanup_idempotent:
  "fst (cleanup e r w) = Returns () \<and>
   client (heap (snd (cleanup e r w)) r) = None \<and>
   transport (heap (snd (cleanup e r w)) r) = None \<and>
   isConnected (heap (snd (cleanup e r w)) r) = False \<and>
   cleanupTimer (heap (snd (cleanup e r w)) r) = None \<and>
   trace (snd (cleanup e r w)) =
     trace w
     @ (case cleanupTimer (heap w r) of Some tm \<Rightarrow> [ClearTimeout tm] | None \<Rightarrow> [])
     @ (case transport (heap w r) of
          Some t \<Rightarrow>
            TransportClose t #
            (case closeError e t of
               Some m \<Rightarrow> [ConsoleError (''Error closing transport for session ''
                                         @ sessionId (heap w r) @ '': '' @ m)]
             | None \<Rightarrow> [])
        | None \<Rightarrow> [])
     @ [ConsoleLog (''MCP session '' @ sessionId (heap w r) @ '' cleaned up'')] \<and>
   fst (cleanup e' r (snd (cleanup e r w))) = Returns () \<and>
   heap (snd (cleanup e' r (snd (cleanup e r w)))) = heap (snd (cleanup e r w)) \<and>
   trace (snd (cleanup e' r (snd (cleanup e r w)))) =
     trace (snd (cleanup e r w))
     @ [ConsoleLog (''MCP session '' @ sessionId (heap w r) @ '' cleaned up'')]"
  by (simp add: cleanup_fst cleanup_heap cleanup_trace fun_eq_iff del: append_assoc)



subsection \<open>What \<open>doConnect\<close> and \<open>connect\<close> do\<close>

lemma doConnect_create_simps [simp]:
  "fst (doConnect_create r t w) = fresh w"
  "heap (snd (doConnect_create r t w)) = (heap w)(r := (heap w r)\<lparr>client := Some (fresh w)\<rparr>)"
  "instances (snd (doConnect_create r t w)) = instances w"
  "promises (snd (doConnect_create r t w)) = promises w"
  "fresh (snd (doConnect_create r t w)) = Suc (fresh w)"
  "trace (snd (doConnect_create r t w)) =
     trace w @ [NewClient (fresh w), SetOnError t r, ClientConnect (fresh w) t]"
  by (simp_all add: doConnect_create_def Let_def)

lemma doConnect_settle_simps [simp]:
  "heap (doConnect_settle r t p err w) =
     (heap w)(r := (case err of
                      None \<Rightarrow> (heap w r)\<lparr>transport := Some t, isConnected := True\<rparr>
                    | Some m \<Rightarrow> (heap w r)\<lparr>isConnected := False, client := None, transport := None\<rparr>))"
  "instances (doConnect_settle r t p err w) = instances w"
  "promises (doConnect_settle r t p err w) =
     (promises w)(p := (case err of
                          None \<Rightarrow> Resolved
                        | Some m \<Rightarrow> Rejected (''Failed to connect MCP session ''
                                               @ sessionId (heap w r) @ '': '' @ m)))"
  "fresh (doConnect_settle r t p err w) = fresh w"
  "trace (doConnect_settle r t p err w) =
     trace w @ (case err of
                  None \<Rightarrow> [ConsoleLog (''MCP session '' @ sessionId (heap w r)
                                        @ '' connected successfully'')]
                | Some m \<Rightarrow> [])"
  by (simp_all add: doConnect_settle_def Let_def split: option.splits)

lemma doConnect_call_fst:
  "fst (doConnect_call r t w) =
     (fresh w, t, case transport (heap w r) of Some told \<Rightarrow> InCleanup told | None \<Rightarrow> AfterCleanup)"
  using cleanup_call_fst [of r "w\<lparr>fresh := Suc (fresh w), promises := (promises w)(fresh w := Pending)\<rparr>"]
  by (auto simp: doConnect_call_def Let_def split: prod.splits option.splits)

lemma doConnect_call_snd:
  "snd (doConnect_call r t w) =
     snd (cleanup_call r (w\<lparr>fresh := Suc (fresh w), promises := (promises w)(fresh w := Pending)\<rparr>))"
  by (auto simp: doConnect_call_def Let_def split: prod.splits option.splits)

lemma doConnect_run_AfterCleanup:
  "doConnect_run e r (p, t, AfterCleanup) w =
     doConnect_settle r t p (connectError e t) (snd (doConnect_create r t w))"
  by (simp add: doConnect_run_def doConnect_resume_def split: prod.splits)

lemma doConnect_run_InCleanup:
  "doConnect_run e r (p, t, InCleanup told) w =
     doConnect_settle r t p (connectError e t)
       (snd (doConnect_create r t (cleanup_resume r (closeError e told) w)))"
  by (simp add: doConnect_run_def doConnect_resume_def split: prod.splits)

lemma doConnect_run_InHandshake:
  "doConnect_run e r (p, t, InHandshake c) w = doConnect_settle r t p (connectError e t) w"
  by (simp add: doConnect_run_def doConnect_resume_def split: prod.splits)

lemma doConnect_run_Settled: "doConnect_run e r (p, t, Settled) w = w"
  by (simp add: doConnect_run_def doConnect_resume_def split: prod.splits)

lemma connect_attempt_fst: "fst (connect_attempt r t w) = AtOwn (fresh w)"
  using doConnect_call_fst [of r t w]
  by (auto simp: connect_attempt_def split: prod.splits)

lemma connect_attempt_attempts:
  "fst (snd (connect_attempt r t w)) =
     [(fresh w, t, case transport (heap w r) of Some told \<Rightarrow> InCleanup told | None \<Rightarrow> AfterCleanup)]"
  using doConnect_call_fst [of r t w]
  by (auto simp: connect_attempt_def split: prod.splits)

lemma connect_attempt_world:
  "snd (snd (connect_attempt r t w)) =
     modify r (\<lambda>h. h\<lparr>connectionPromise := Some (fresh w)\<rparr>) (snd (doConnect_call r t w))"
  using doConnect_call_fst [of r t w]
  by (auto simp: connect_attempt_def split: prod.splits)

lemma attempted_heap:
  "heap (attempted e r t w) =
     (heap w)(r := (case connectError e t of
        None \<Rightarrow> (heap w r)\<lparr>cleanupTimer := None, connectionPromise := Some (fresh w),
                             client := Some (Suc (fresh w)), transport := Some t, isConnected := True\<rparr>
      | Some m \<Rightarrow> (heap w r)\<lparr>cleanupTimer := None, connectionPromise := Some (fresh w),
                               client := None, transport := None, isConnected := False\<rparr>))"
  unfolding attempted_def
  by (cases "connect_attempt r t w")
     (use connect_attempt_attempts [of r t w] connect_attempt_world [of r t w] in
      \<open>auto simp: doConnect_call_snd cleanup_call_heap cleanup_resume_heap fun_eq_iff
            doConnect_run_AfterCleanup doConnect_run_InCleanup split: option.splits\<close>)

lemma attempted_frame:
  "instances (attempted e r t w) = instances w"
  "fresh (attempted e r t w) = Suc (Suc (fresh w))"
  "promises (attempted e r t w) =
     (promises w)(fresh w := (case connectError e t of
                                None \<Rightarrow> Resolved
                              | Some m \<Rightarrow> Rejected (''Failed to connect MCP session ''
                                                     @ sessionId (heap w r) @ '': '' @ m)))"
  unfolding attempted_def
  by (cases "connect_attempt r t w";
      use connect_attempt_attempts [of r t w] connect_attempt_world [of r t w] in
      \<open>auto simp: doConnect_call_snd cleanup_call_heap cleanup_resume_heap fun_eq_iff
            doConnect_run_AfterCleanup doConnect_run_InCleanup split: option.splits\<close>)+

lemma attempted_trace:
  "trace (attempted e r t w) =
     trace (snd (cleanup e r w))
     @ [NewClient (Suc (fresh w)), SetOnError t r, ClientConnect (Suc (fresh w)) t]
     @ (case connectError e t of
          None \<Rightarrow> [ConsoleLog (''MCP session '' @ sessionId (heap w r) @ '' connected successfully'')]
        | Some m \<Rightarrow> [])"
  unfolding attempted_def
  by (cases "connect_attempt r t w")
     (use connect_attempt_attempts [of r t w] connect_attempt_world [of r t w] in
      \<open>auto simp: doConnect_call_snd cleanup_call_heap cleanup_call_trace cleanup_resume_heap
            cleanup_resume_trace cleanup_trace
            doConnect_run_AfterCleanup doConnect_run_InCleanup split: option.splits\<close>)


lemma connect_round_attempt:
  "connect_round e r t (connect_attempt r t w) =
     connect_resume e r t (AtOwn (fresh w)) (attempted e r t w)"
  using connect_attempt_fst [of r t w]
  by (cases "connect_attempt r t w") (auto simp: connect_round_def attempted_def)

lemma connect_resume_attempted:
  "connect_resume e r t (AtOwn (fresh w)) (attempted e r t w) =
     (case connectError e t of
        None \<Rightarrow>
          (Finished (Returns (Some (Suc (fresh w)))), [],
           modify r (\<lambda>h. h\<lparr>lastUsed := dateNow e\<rparr>)
             (modify r (\<lambda>h. h\<lparr>connectionPromise := None\<rparr>) (attempted e r t w)))
      | Some m \<Rightarrow>
          (Finished (Throws (''Failed to connect MCP session '' @ sessionId (heap w r) @ '': '' @ m)),
           [], attempted e r t w))"
  by (simp add: connect_resume_def attempted_heap attempted_frame Let_def split: option.splits)

lemma connect_round_Finished [simp]:
  "connect_round e r t (Finished out, [], w) = (Finished out, [], w)"
  by (simp add: connect_round_def connect_resume_def)

lemma connect_finish_1:
  "connect_round e r t s = (Finished out, [], w') \<Longrightarrow> connect_finish e r t s = (out, w')"
  by (simp add: connect_finish_def)

lemma connect_finish_2:
  "connect_round e r t s = s1 \<Longrightarrow> connect_round e r t s1 = (Finished out, [], w')
     \<Longrightarrow> connect_finish e r t s = (out, w')"
  by (simp add: connect_finish_def)

lemma connect_finish_3:
  "connect_round e r t s = s1 \<Longrightarrow> connect_round e r t s1 = s2
     \<Longrightarrow> connect_round e r t s2 = (Finished out, [], w')
     \<Longrightarrow> connect_finish e r t s = (out, w')"
  by (simp add: connect_finish_def)

lemma connect_round_attempt_result:
  "connect_round e r t (connect_attempt r t w) =
     (Finished (fst (attempt_result e r t w)), [], snd (attempt_result e r t w))"
  by (simp add: connect_round_attempt connect_resume_attempted attempt_result_def
           split: option.splits)

lemma connect_unconnected:
  assumes "\<not> isSessionConnected r w" "connectionPromise (heap w r) = None"
  shows "connect e r t w = attempt_result e r t w"
proof -
  have "connect_call r t w = connect_attempt r t w"
    using assms by (auto simp: connect_call_def connect_wait_def isSessionConnected_def)
  then show ?thesis
    using connect_finish_1 [OF connect_round_attempt_result [of e r t w]]
    by (simp add: connect_def)
qed

lemma attempt_result_fst:
  "fst (attempt_result e r t w) =
     (case connectError e t of
        None \<Rightarrow> Returns (Some (Suc (fresh w)))
      | Some m \<Rightarrow> Throws (''Failed to connect MCP session '' @ sessionId (heap w r) @ '': '' @ m))"
  by (simp add: attempt_result_def split: option.splits)

lemma attempt_result_trace:
  "trace (snd (attempt_result e r t w)) = trace (attempted e r t w)"
  by (simp add: attempt_result_def split: option.splits)

lemma attempt_result_heap:
  "heap (snd (attempt_result e r t w)) =
     (heap w)(r := (case connectError e t of
        None \<Rightarrow> (heap w r)\<lparr>cleanupTimer := None, connectionPromise := None, lastUsed := dateNow e,
                             client := Some (Suc (fresh w)), transport := Some t, isConnected := True\<rparr>
      | Some m \<Rightarrow> (heap w r)\<lparr>cleanupTimer := None, connectionPromise := Some (fresh w),
                               client := None, transport := None, isConnected := False\<rparr>))"
  by (auto simp: attempt_result_def attempted_heap fun_eq_iff split: option.splits)

subsection \<open>What \<open>getClient\<close> does\<close>

lemma getClient_unconnected:
  "\<not> isSessionConnected r w \<Longrightarrow> getClient e r w = (Returns None, w)"
  by (auto simp: getClient_def getClient_call_def isSessionConnected_def)

lemma getClient_valid:
  assumes "isConnected (heap w r)" "client (heap w r) = Some c" "transport (heap w r) = Some t0"
          "listToolsError e c = None"
  shows "getClient e r w =
           (Returns (Some c), modify r (\<lambda>h. h\<lparr>lastUsed := dateNow e\<rparr>) (emit (ListTools c) w))"
  using assms
  by (simp add: getClient_def getClient_call_def validateConnection_call_def getClient_resume_def
        validateConnection_error_def Let_def)

lemma getClient_invalid:
  assumes "isConnected (heap w r)" "client (heap w r) = Some c"
          "transport (heap w r) = None \<or> listToolsError e c \<noteq> None"
  shows "getClient e r w =
           (Returns None,
            modify r (\<lambda>h. h\<lparr>isConnected := False, client := None\<rparr>)
              (emit (ConsoleLog (''Session '' @ sessionId (heap w r)
                                 @ '' validation failed during getClient''))
                 (case transport (heap w r) of None \<Rightarrow> w | Some t0 \<Rightarrow> emit (ListTools c) w)))"
  using assms
  by (auto simp: getClient_def getClient_call_def validateConnection_call_def getClient_resume_def
        validateConnection_error_def Let_def split: option.splits)

lemma getClient_cases:
  obtains (unconnected) "\<not> isSessionConnected r w"
  | (valid) c t0 where "isConnected (heap w r)" "client (heap w r) = Some c"
      "transport (heap w r) = Some t0" "listToolsError e c = None"
  | (invalid) c where "isConnected (heap w r)" "client (heap w r) = Some c"
      "transport (heap w r) = None \<or> listToolsError e c \<noteq> None"
  by (cases "isSessionConnected r w"; cases "transport (heap w r)"; cases "client (heap w r)";
      cases "listToolsError e (the (client (heap w r)))")
     (auto simp: isSessionConnected_def)


text \<open>
  Claim C7. \<open>getClient\<close> always returns: it throws nothing and waits for no promise.
  It allocates nothing, settles no promise and adds to the trace only the probe
  \<open>listTools\<close> and a log line, so it never reconnects. On a session that is not
  connected it returns \<open>null\<close> and changes nothing. When the probe fails (no transport,
  or \<open>listTools\<close> fails) it returns \<open>null\<close> and the session is not connected
  afterwards; a \<open>connect\<close> that follows (no attempt being recorded on the session,
  which is so for every connected session as long as calls are awaited one after the
  other, see \<open>connect_noStale\<close> below, and the old client \<open>c\<close> being an object
  allocated before) creates a new client, other than \<open>c\<close>, and returns that one
  when its handshake succeeds.
\<close>

theorem getClient_validated:
  "(\<exists>v. fst (getClient e r w) = Returns v) \<and>
   fresh (snd (getClient e r w)) = fresh w \<and>
   promises (snd (getClient e r w)) = promises w \<and>
   instances (snd (getClient e r w)) = instances w \<and>
   (\<exists>evs. trace (snd (getClient e r w)) = trace w @ evs \<and>
          (\<forall>ev \<in> set evs. (\<exists>c. ev = ListTools c) \<or> (\<exists>s. ev = ConsoleLog s))) \<and>
   (\<not> isSessionConnected r w \<longrightarrow> getClient e r w = (Returns None, w)) \<and>
   (\<forall>c. isConnected (heap w r) \<and> client (heap w r) = Some c \<and>
        (transport (heap w r) = None \<or> listToolsError e c \<noteq> None) \<longrightarrow>
        fst (getClient e r w) = Returns None \<and>
        \<not> isSessionConnected r (snd (getClient e r w)) \<and>
        (connectionPromise (heap w r) = None \<and> c < fresh w \<longrightarrow>
           Suc (fresh w) \<noteq> c \<and>
           NewClient (Suc (fresh w)) \<in> set (trace (snd (connect e' r t (snd (getClient e r w))))) \<and>
           fst (connect e' r t (snd (getClient e r w))) =
             (case connectError e' t of
                None \<Rightarrow> Returns (Some (Suc (fresh w)))
              | Some m \<Rightarrow> Throws (''Failed to connect MCP session '' @ sessionId (heap w r)
                                   @ '': '' @ m))))"
proof (cases rule: getClient_cases [where r = r and w = w and e = e])
  case unconnected
  then show ?thesis
    by (auto simp: getClient_unconnected isSessionConnected_def)
next
  case (valid c t0)
  then show ?thesis
    by (auto simp: getClient_valid isSessionConnected_def)
next
  case (invalid c)
  let ?w1 = "snd (getClient e r w)"
  have g: "getClient e r w =
           (Returns None,
            modify r (\<lambda>h. h\<lparr>isConnected := False, client := None\<rparr>)
              (emit (ConsoleLog (''Session '' @ sessionId (heap w r)
                                 @ '' validation failed during getClient''))
                 (case transport (heap w r) of None \<Rightarrow> w | Some t0 \<Rightarrow> emit (ListTools c) w)))"
    using invalid by (rule getClient_invalid)
  have un: "\<not> isSessionConnected r ?w1"
    by (simp add: g isSessionConnected_def)
  have fr: "fresh ?w1 = fresh w" "sessionId (heap ?w1 r) = sessionId (heap w r)"
       "connectionPromise (heap ?w1 r) = connectionPromise (heap w r)"
    by (simp_all add: g split: option.splits)
  have tr: "\<exists>evs. trace ?w1 = trace w @ evs \<and>
          (\<forall>ev \<in> set evs. (\<exists>c. ev = ListTools c) \<or> (\<exists>s. ev = ConsoleLog s))"
    by (cases "transport (heap w r)") (simp_all add: g)
  have co: "connect e' r t ?w1 = attempt_result e' r t ?w1"
    if "connectionPromise (heap w r) = None"
    using un that fr(3) by (simp add: connect_unconnected)
  have "NewClient (Suc (fresh w)) \<in> set (trace (snd (connect e' r t ?w1)))"
    if "connectionPromise (heap w r) = None"
    using co [OF that] fr by (simp add: attempt_result_trace attempted_trace)
  moreover have "fst (connect e' r t ?w1) =
             (case connectError e' t of
                None \<Rightarrow> Returns (Some (Suc (fresh w)))
              | Some m \<Rightarrow> Throws (''Failed to connect MCP session '' @ sessionId (heap w r)
                                   @ '': '' @ m))"
    if "connectionPromise (heap w r) = None"
    using co [OF that] fr by (simp add: attempt_result_fst split: option.splits)
  ultimately show ?thesis
    using invalid un tr by (auto simp: g isSessionConnected_def split: option.splits)
qed

lemma connectedWorld_facts:
  "isConnected (heap connectedWorld 0)" "client (heap connectedWorld 0) = Some 3"
  "transport (heap connectedWorld 0) = Some 77" "connectionPromise (heap connectedWorld 0) = None"
  "fresh connectedWorld = 4" "sessionId (heap connectedWorld 0) = ''s''"
  by code_simp+


theorem getClient_validated_witness:
  "isConnected (heap connectedWorld 0) \<and> client (heap connectedWorld 0) = Some 3 \<and>
   listToolsError ((calm 2000)\<lparr>listToolsError := (\<lambda>c. Some ''gone'')\<rparr>) 3 \<noteq> None \<and>
   connectionPromise (heap connectedWorld 0) = None \<and> 3 < fresh connectedWorld \<and>
   fst (getClient ((calm 2000)\<lparr>listToolsError := (\<lambda>c. Some ''gone'')\<rparr>) 0 connectedWorld) = Returns None \<and>
   \<not> isSessionConnected 0
        (snd (getClient ((calm 2000)\<lparr>listToolsError := (\<lambda>c. Some ''gone'')\<rparr>) 0 connectedWorld)) \<and>
   fst (connect (calm 3000) 0 78
         (snd (getClient ((calm 2000)\<lparr>listToolsError := (\<lambda>c. Some ''gone'')\<rparr>) 0 connectedWorld)))
     = Returns (Some 5)"
  using getClient_validated
          [of "(calm 2000)\<lparr>listToolsError := (\<lambda>c. Some ''gone'')\<rparr>" 0 connectedWorld "calm 3000" 78]
        connectedWorld_facts
  by (simp add: calm_def)

subsection \<open>A session that is not connected holds no client\<close>

lemma cleanup_call_noClient:
  "\<forall>r'. holdsNoClient (heap w r') \<Longrightarrow> holdsNoClient (heap (snd (cleanup_call r w)) r')"
  by (auto simp: cleanup_call_heap holdsNoClient_def split: option.splits)

lemma cleanup_resume_noClient:
  "\<forall>r'. holdsNoClient (heap w r') \<Longrightarrow> holdsNoClient (heap (cleanup_resume r err w) r')"
  by (auto simp: cleanup_resume_heap holdsNoClient_def)

lemma cleanup_noClient:
  "\<forall>r'. holdsNoClient (heap w r') \<Longrightarrow> holdsNoClient (heap (snd (cleanup e r w)) r')"
  by (auto simp: cleanup_heap holdsNoClient_def)

lemma doConnect_settle_noClient:
  "\<forall>r'. r' \<noteq> r \<longrightarrow> holdsNoClient (heap w r') \<Longrightarrow>
     holdsNoClient (heap (doConnect_settle r t p err w) r')"
  by (auto simp: holdsNoClient_def split: option.splits)

lemma doConnect_run_noClient:
  assumes "\<forall>r'. holdsNoClient (heap w r')"
  shows "holdsNoClient (heap (doConnect_run e r a w) r')"
proof -
  obtain p t at where a: "a = (p, t, at)" by (cases a)
  show ?thesis
  proof (cases at)
    case (InCleanup told)
    have "\<forall>r'. r' \<noteq> r \<longrightarrow>
            holdsNoClient (heap (snd (doConnect_create r t (cleanup_resume r (closeError e told) w))) r')"
      using assms by (auto simp: cleanup_resume_heap holdsNoClient_def)
    then show ?thesis
      unfolding a InCleanup doConnect_run_InCleanup by (rule doConnect_settle_noClient)
  next
    case AfterCleanup
    have "\<forall>r'. r' \<noteq> r \<longrightarrow> holdsNoClient (heap (snd (doConnect_create r t w)) r')"
      using assms by (auto simp: holdsNoClient_def)
    then show ?thesis
      unfolding a AfterCleanup doConnect_run_AfterCleanup by (rule doConnect_settle_noClient)
  next
    case (InHandshake c)
    have "\<forall>r'. r' \<noteq> r \<longrightarrow> holdsNoClient (heap w r')"
      using assms by simp
    then show ?thesis
      unfolding a InHandshake doConnect_run_InHandshake by (rule doConnect_settle_noClient)
  next
    case Settled
    then show ?thesis using assms by (simp add: a doConnect_run_Settled)
  qed
qed

lemma fold_doConnect_run_noClient:
  "\<forall>r'. holdsNoClient (heap w r') \<Longrightarrow> \<forall>r'. holdsNoClient (heap (fold (doConnect_run e r) as w) r')"
proof (induction as arbitrary: w)
  case Nil
  then show ?case by simp
next
  case (Cons a as)
  have "\<forall>r'. holdsNoClient (heap (doConnect_run e r a w) r')"
    using Cons.prems doConnect_run_noClient by blast
  then show ?case using Cons.IH by simp
qed

lemma connect_attempt_noClient:
  assumes "\<forall>r'. holdsNoClient (heap w r')"
  shows "holdsNoClient (heap (snd (snd (connect_attempt r t w))) r')"
  using assms
  by (auto simp: connect_attempt_world doConnect_call_snd cleanup_call_heap holdsNoClient_def
           split: option.splits)

lemma connect_wait_noClient:
  assumes "\<forall>r'. holdsNoClient (heap w r')"
  shows "holdsNoClient (heap (snd (snd (connect_wait r t w))) r')"
  using assms connect_attempt_noClient [of w r t r']
  by (auto simp: connect_wait_def split: option.splits)

lemma connect_call_noClient:
  assumes "\<forall>r'. holdsNoClient (heap w r')"
  shows "holdsNoClient (heap (snd (snd (connect_call r t w))) r')"
  using assms connect_wait_noClient [of w r t r']
  by (auto simp: connect_call_def validateConnection_call_def split: option.splits prod.splits)

lemma connect_call_nodes_noClient:
  assumes "\<forall>r'. holdsNoClient (heap w r')"
  shows "holdsNoClient (heap (snd (snd (connect_call_nodes e r t w))) r')"
  using assms connect_wait_noClient [of w r t r']
  by (auto simp: connect_call_nodes_def Let_def holdsNoClient_def)

lemma connect_resume_noClient:
  assumes "\<forall>r'. holdsNoClient (heap w r')"
  shows "holdsNoClient (heap (snd (snd (connect_resume e r t at w))) r')"
proof (cases at)
  case (AtValidate probe)
  show ?thesis
  proof (cases "validateConnection_error e probe")
    case None
    then show ?thesis using assms
      by (auto simp: connect_resume_def AtValidate Let_def holdsNoClient_def)
  next
    case (Some err)
    let ?w2 = "modify r (\<lambda>h. h\<lparr>isConnected := False, client := None\<rparr>)
                 (emit (ConsoleLog (''Session '' @ sessionId (heap w r)
                                @ '' connection validation failed, reconnecting...'')) w)"
    have "\<forall>r'. holdsNoClient (heap ?w2 r')"
      using assms by (auto simp: holdsNoClient_def)
    then have "holdsNoClient (heap (snd (snd (connect_wait r t ?w2))) r')"
      by (rule connect_wait_noClient)
    then show ?thesis
      by (simp add: connect_resume_def AtValidate Some Let_def)
  qed
next
  case (AtShared p)
  then show ?thesis
    using assms connect_attempt_noClient [of w r t r']
    by (cases "promises w p") (auto simp: connect_resume_def Let_def holdsNoClient_def)
next
  case (AtOwn p)
  then show ?thesis
    using assms
    by (cases "promises w p") (auto simp: connect_resume_def Let_def holdsNoClient_def)
next
  case (Finished out)
  then show ?thesis using assms by (simp add: connect_resume_def)
qed

lemma connect_round_noClient:
  assumes "\<forall>r'. holdsNoClient (heap (snd (snd s)) r')"
  shows "\<forall>r'. holdsNoClient (heap (snd (snd (connect_round e r t s))) r')"
proof -
  obtain at as w where s: "s = (at, as, w)" by (cases s)
  have "\<forall>r'. holdsNoClient (heap (fold (doConnect_run e r) as w) r')"
    using assms s fold_doConnect_run_noClient by simp
  then show ?thesis
    using connect_resume_noClient by (simp add: s connect_round_def)
qed

lemma connect_finish_world:
  "snd (connect_finish e r t s) =
     snd (snd (connect_round e r t (connect_round e r t (connect_round e r t s))))"
  by (simp add: connect_finish_def split: prod.splits connect_at.splits)

lemma connect_finish_noClient:
  assumes "\<forall>r'. holdsNoClient (heap (snd (snd s)) r')"
  shows "\<forall>r'. holdsNoClient (heap (snd (connect_finish e r t s)) r')"
  unfolding connect_finish_world
  by (intro connect_round_noClient assms)

lemma connect_noClient:
  assumes "\<forall>r'. holdsNoClient (heap w r')"
  shows "\<forall>r'. holdsNoClient (heap (snd (connect e r t w)) r')"
  unfolding connect_def
  using assms connect_call_noClient by (intro connect_finish_noClient) blast

lemma connect_nodes_noClient:
  assumes "\<forall>r'. holdsNoClient (heap w r')"
  shows "\<forall>r'. holdsNoClient (heap (snd (connect_nodes e r t w)) r')"
  unfolding connect_nodes_def
  using assms connect_call_nodes_noClient by (intro connect_finish_noClient) blast

lemma getClient_noClient:
  assumes "\<forall>r'. holdsNoClient (heap w r')"
  shows "\<forall>r'. holdsNoClient (heap (snd (getClient e r w)) r')"
proof (cases rule: getClient_cases [where r = r and w = w and e = e])
  case unconnected
  then show ?thesis using assms by (simp add: getClient_unconnected)
next
  case (valid c t0)
  then show ?thesis using assms by (auto simp: getClient_valid holdsNoClient_def)
next
  case (invalid c)
  then show ?thesis using assms
    by (auto simp: getClient_invalid holdsNoClient_def split: option.splits)
qed

lemma getClientSync_noClient:
  assumes "\<forall>r'. holdsNoClient (heap w r')"
  shows "\<forall>r'. holdsNoClient (heap (snd (getClientSync e r w)) r')"
  using assms by (auto simp: getClientSync_def Let_def holdsNoClient_def)

lemma startCleanupTimer_heap:
  "heap (startCleanupTimer r w) = (heap w)(r := (heap w r)\<lparr>cleanupTimer := Some (fresh w)\<rparr>)"
  by (simp add: startCleanupTimer_def Let_def)

lemma startCleanupTimer_frame [simp]:
  "instances (startCleanupTimer r w) = instances w"
  "promises (startCleanupTimer r w) = promises w"
  "fresh (startCleanupTimer r w) = Suc (fresh w)"
  "trace (startCleanupTimer r w) = trace w @ [SetTimeout (fresh w) CLEANUP_INTERVAL]"
  by (simp_all add: startCleanupTimer_def Let_def)

lemma cleanupExpired_noClient:
  "\<forall>r'. holdsNoClient (heap (snd s) r') \<Longrightarrow>
     \<forall>r'. holdsNoClient (heap (snd (cleanupExpired sids s)) r')"
proof (induction sids s rule: cleanupExpired.induct)
  case (1 s)
  then show ?case by simp
next
  case (2 sid sids pend w)
  show ?case
  proof (cases "map_of (instances w) sid")
    case None
    then show ?thesis using 2 by simp
  next
    case (Some r)
    obtain closing w1 where c: "cleanup_call r w = (closing, w1)" by (cases "cleanup_call r w")
    have w: "\<forall>r'. holdsNoClient (heap w r')"
      using 2(3) by simp
    have "\<forall>r'. holdsNoClient (heap w1 r')"
      using cleanup_call_noClient [OF w, where r = r] c by simp
    then show ?thesis
      using 2(2) [OF Some c [symmetric] refl refl] Some c by (simp add: Let_def)
  qed
qed

lemma settle_cleanups_noClient:
  "\<forall>r'. holdsNoClient (heap w r') \<Longrightarrow> \<forall>r'. holdsNoClient (heap (settle_cleanups e pend w) r')"
  unfolding settle_cleanups_def
proof (induction pend arbitrary: w)
  case Nil
  then show ?case by simp
next
  case (Cons a pend)
  obtain r t where a: "a = (r, t)" by (cases a)
  have "\<forall>r'. holdsNoClient (heap (cleanup_resume r (closeError e t) w) r')"
    using Cons.prems cleanup_resume_noClient by blast
  then show ?case using Cons.IH by (simp add: a)
qed

lemma sweep_noClient:
  assumes "\<forall>r'. holdsNoClient (heap w r')"
  shows "\<forall>r'. holdsNoClient (heap (snd (checkAndCleanupExpiredSessions e this w)) r')"
proof -
  have "\<forall>r'. holdsNoClient (heap (snd (cleanupExpired (expiredSessions (dateNow e) w) ([], w))) r')"
    using assms by (intro cleanupExpired_noClient) simp
  then show ?thesis
    by (auto simp: checkAndCleanupExpiredSessions_def startCleanupTimer_heap holdsNoClient_def
             split: prod.splits)
qed

lemma getInstance_noClient:
  assumes "\<forall>r'. holdsNoClient (heap w r')"
  shows "\<forall>r'. holdsNoClient (heap (snd (getInstance e sid w)) r')"
  using assms
  by (auto simp: getInstance_def newSessionManager_def Let_def startCleanupTimer_heap
        holdsNoClient_def split: option.splits)

lemma connectedWorld_noClient: "\<forall>r'. holdsNoClient (heap connectedWorld r')"
proof -
  have "\<forall>r'. holdsNoClient (heap startWorld r')"
    by (simp add: startWorld_def blankHandle_def holdsNoClient_def)
  then have "\<forall>r'. holdsNoClient (heap (snd (getInstance (calm 1000) ''s'' startWorld)) r')"
    by (rule getInstance_noClient)
  then show ?thesis
    unfolding connectedWorld_def by (rule connect_noClient)
qed

text \<open>
  Claim C3, as amended. If every session that is not connected holds no client, then
  this is still so after \<open>connect\<close> (of either file), \<open>getClient\<close>, \<open>getClientSync\<close>
  (which is \<open>getClient\<close> of the nodes file), \<open>cleanup\<close>, the sweep when it returns,
  and the sweep once the cleanups it left waiting have finished. The transport is not
  part of what is kept: see the counterexample.
\<close>

theorem disconnected_holds_no_client:
  assumes "\<forall>r'. holdsNoClient (heap w r')"
  shows "(\<forall>r'. holdsNoClient (heap (snd (connect e r t w)) r')) \<and>
         (\<forall>r'. holdsNoClient (heap (snd (connect_nodes e r t w)) r')) \<and>
         (\<forall>r'. holdsNoClient (heap (snd (getClient e r w)) r')) \<and>
         (\<forall>r'. holdsNoClient (heap (snd (getClientSync e r w)) r')) \<and>
         (\<forall>r'. holdsNoClient (heap (snd (cleanup e r w)) r')) \<and>
         (\<forall>r'. holdsNoClient (heap (snd (checkAndCleanupExpiredSessions e r w)) r')) \<and>
         (\<forall>r'. holdsNoClient
                 (heap (settle_cleanups e' (fst (checkAndCleanupExpiredSessions e r w))
                          (snd (checkAndCleanupExpiredSessions e r w))) r'))"
proof (intro conjI)
  show "\<forall>r'. holdsNoClient (heap (snd (connect e r t w)) r')"
    using assms by (rule connect_noClient)
  show "\<forall>r'. holdsNoClient (heap (snd (connect_nodes e r t w)) r')"
    using assms by (rule connect_nodes_noClient)
  show "\<forall>r'. holdsNoClient (heap (snd (getClient e r w)) r')"
    using assms by (rule getClient_noClient)
  show "\<forall>r'. holdsNoClient (heap (snd (getClientSync e r w)) r')"
    using assms by (rule getClientSync_noClient)
  show "\<forall>r'. holdsNoClient (heap (snd (cleanup e r w)) r')"
    using assms by (simp add: cleanup_noClient)
  show sw: "\<forall>r'. holdsNoClient (heap (snd (checkAndCleanupExpiredSessions e r w)) r')"
    using assms by (rule sweep_noClient)
  show "\<forall>r'. holdsNoClient
                 (heap (settle_cleanups e' (fst (checkAndCleanupExpiredSessions e r w))
                          (snd (checkAndCleanupExpiredSessions e r w))) r')"
    using sw by (rule settle_cleanups_noClient)
qed

theorem disconnected_holds_no_client_witness:
  "(\<forall>r'. holdsNoClient (heap connectedWorld r')) \<and>
   holdsNoClient
     (heap (snd (getClient ((calm 2000)\<lparr>listToolsError := (\<lambda>c. Some ''gone'')\<rparr>) 0 connectedWorld)) 0) \<and>
   holdsNoClient (heap (snd (connect (calm 2000) 0 78 connectedWorld)) 0) \<and>
   holdsNoClient (heap (snd (cleanup (calm 2000) 0 connectedWorld)) 0)"
  using disconnected_holds_no_client
          [OF connectedWorld_noClient,
           of "(calm 2000)\<lparr>listToolsError := (\<lambda>c. Some ''gone'')\<rparr>" 0 78 "calm 2000"]
        disconnected_holds_no_client [OF connectedWorld_noClient, of "calm 2000" 0 78 "calm 2000"]
        connectedWorld_noClient
  by blast

text \<open>
  The claim as stated fails at \<open>getClient\<close>: on the connected session of
  \<open>connectedWorld\<close>, whose probe fails, it clears \<open>isConnected\<close> and the client and
  leaves the transport 77 in place.
\<close>

theorem getClient_keeps_transport_counterexample:
  "holdsNoResource (heap connectedWorld 0) \<and>
   \<not> holdsNoResource
       (heap (snd (getClient ((calm 2000)\<lparr>listToolsError := (\<lambda>c. Some ''gone'')\<rparr>) 0 connectedWorld)) 0) \<and>
   transport
     (heap (snd (getClient ((calm 2000)\<lparr>listToolsError := (\<lambda>c. Some ''gone'')\<rparr>) 0 connectedWorld)) 0)
     = Some 77"
  by code_simp


subsection \<open>Callers of \<open>connect\<close> at once\<close>

lemma connect_resume_settled:
  assumes "settled p out r w" "at = AtOwn p \<or> at = AtShared p \<or> at = Finished out"
  shows "fst (connect_resume e r t at w) = Finished out"
    and "fst (snd (connect_resume e r t at w)) = []"
    and "settled p out r (snd (snd (connect_resume e r t at w)))"
    and "trace (snd (snd (connect_resume e r t at w))) = trace w"
  using assms
  by (cases out; auto simp: settled_def connect_resume_def Let_def)+

lemma resume_callers_settled:
  assumes "settled p out r w"
      and "\<forall>i < length ats. ats ! i = AtOwn p \<or> ats ! i = AtShared p \<or> ats ! i = Finished out"
  shows "length (fst (resume_callers e r ts order (ats, [], w))) = length ats \<and>
         (\<forall>i < length ats. fst (resume_callers e r ts order (ats, [], w)) ! i = AtOwn p \<or>
              fst (resume_callers e r ts order (ats, [], w)) ! i = AtShared p \<or>
              fst (resume_callers e r ts order (ats, [], w)) ! i = Finished out) \<and>
         (\<forall>i < length ats. ats ! i = Finished out \<longrightarrow>
              fst (resume_callers e r ts order (ats, [], w)) ! i = Finished out) \<and>
         (\<forall>i \<in> set order. i < length ats \<and> i < length ts \<longrightarrow>
              fst (resume_callers e r ts order (ats, [], w)) ! i = Finished out) \<and>
         fst (snd (resume_callers e r ts order (ats, [], w))) = [] \<and>
         trace (snd (snd (resume_callers e r ts order (ats, [], w)))) = trace w"
  using assms
proof (induction order arbitrary: ats w)
  case Nil
  then show ?case by simp
next
  case (Cons i order)
  show ?case
  proof (cases "i < length ats \<and> i < length ts")
    case False
    then show ?thesis using Cons.IH [OF Cons.prems] by auto
  next
    case True
    let ?res = "connect_resume e r (ts ! i) (ats ! i) w"
    let ?ats' = "ats[i := fst ?res]"
    let ?w' = "snd (snd ?res)"
    have ati: "ats ! i = AtOwn p \<or> ats ! i = AtShared p \<or> ats ! i = Finished out"
      using Cons.prems(2) True by blast
    note rs = connect_resume_settled [OF Cons.prems(1) ati, of e "ts ! i"]
    have step: "resume_callers e r ts (i # order) (ats, [], w) =
                resume_callers e r ts order (?ats', [], ?w')"
      using True rs(2) by (cases ?res) auto
    have ats': "\<forall>j < length ?ats'. ?ats' ! j = AtOwn p \<or> ?ats' ! j = AtShared p \<or> ?ats' ! j = Finished out"
    proof (intro allI impI)
      fix j assume j: "j < length ?ats'"
      show "?ats' ! j = AtOwn p \<or> ?ats' ! j = AtShared p \<or> ?ats' ! j = Finished out"
      proof (cases "j = i")
        case True
        then show ?thesis using j rs(1) by simp
      next
        case False
        then show ?thesis using j Cons.prems(2) by simp
      qed
    qed
    note ih = Cons.IH [OF rs(3) ats']
    have fin_i: "?ats' ! i = Finished out"
      using True rs(1) by simp
    have keep: "\<forall>j < length ats. ats ! j = Finished out \<longrightarrow> ?ats' ! j = Finished out"
    proof (intro allI impI)
      fix j assume j: "j < length ats" "ats ! j = Finished out"
      show "?ats' ! j = Finished out"
      proof (cases "j = i")
        case True
        then show ?thesis using j rs(1) by simp
      next
        case False
        then show ?thesis using j by simp
      qed
    qed
    show ?thesis
      unfolding step using ih fin_i keep True rs(4) by auto
  qed
qed


lemma connect_calls_waiters:
  assumes "\<forall>t. call r t w = (AtShared p, [], w)"
  shows "connect_calls call r ts w = (replicate (length ts) (AtShared p), [], w)"
  using assms by (induction ts) auto

lemma connect_call_waits:
  assumes "\<not> isSessionConnected r w" "connectionPromise (heap w r) = Some p"
  shows "connect_call r t w = (AtShared p, [], w)"
    and "connect_call_nodes e r t w = (AtShared p, [], w)"
  using assms
  by (auto simp: connect_call_def connect_call_nodes_def connect_wait_def isSessionConnected_def)

lemma connect_call_attempts:
  assumes "\<not> isSessionConnected r w" "connectionPromise (heap w r) = None"
  shows "connect_call r t w = connect_attempt r t w"
    and "connect_call_nodes e r t w = connect_attempt r t w"
  using assms
  by (auto simp: connect_call_def connect_call_nodes_def connect_wait_def isSessionConnected_def)

lemma connect_attempt_waiting:
  assumes "\<not> isSessionConnected r w"
  shows "\<not> isSessionConnected r (snd (snd (connect_attempt r t w)))"
    and "connectionPromise (heap (snd (snd (connect_attempt r t w))) r) = Some (fresh w)"
  using assms
  by (auto simp: connect_attempt_world doConnect_call_snd cleanup_call_heap isSessionConnected_def
           split: option.splits)

lemma attempted_settled:
  "settled (fresh w) (fst (attempt_result e r t w)) r (attempted e r t w)"
  by (auto simp: settled_def attempt_result_fst attempted_heap attempted_frame split: option.splits)

lemma concurrent_connects_eq:
  assumes "\<not> isSessionConnected r w" "connectionPromise (heap w r) = None"
      and "call = connect_call \<or> call = connect_call_nodes e'"
  shows "concurrent_connects call e r (t # ts) order w =
           resume_callers e r (t # ts) order
             (AtOwn (fresh w) # replicate (length ts) (AtShared (fresh w)), [], attempted e r t w)"
proof -
  let ?w1 = "snd (snd (connect_attempt r t w))"
  have first: "call r t w = connect_attempt r t w"
    using assms(3) connect_call_attempts [OF assms(1,2)] by auto
  have "\<forall>t'. call r t' ?w1 = (AtShared (fresh w), [], ?w1)"
    using assms(3) connect_call_waits [OF connect_attempt_waiting [OF assms(1)]] by auto
  then have rest: "connect_calls call r ts ?w1 = (replicate (length ts) (AtShared (fresh w)), [], ?w1)"
    by (rule connect_calls_waiters)
  have "connect_calls call r (t # ts) w =
          (AtOwn (fresh w) # replicate (length ts) (AtShared (fresh w)),
           fst (snd (connect_attempt r t w)), ?w1)"
    using first rest connect_attempt_fst [of r t w]
    by (cases "connect_attempt r t w") auto
  then show ?thesis
    by (cases "connect_attempt r t w") (auto simp: concurrent_connects_def attempted_def)
qed


text \<open>
  Claim C1. Let the session be not connected and have no attempt recorded (as a new
  one is), and let one or more callers call \<open>connect\<close> at once, each resumed at least
  once afterwards, in any order. Then every caller ends with the same outcome: the
  one new client, when the handshake succeeds, or the one error of the failed
  handshake. Nothing is left running, and the calls made to the outside are those of
  one \<open>cleanup\<close>, one \<open>new Client\<close>, one handshake (on the first caller's transport)
  and the log line: exactly one client is created and exactly one handshake is made.
  This holds for \<open>connect\<close> of either file.
\<close>

theorem concurrent_connects_coalesce:
  assumes "\<not> isSessionConnected r w" "connectionPromise (heap w r) = None"
      and "ts \<noteq> []" "{..<length ts} \<subseteq> set order"
      and "call = connect_call \<or> call = connect_call_nodes e"
  shows "\<exists>out.
           length (fst (concurrent_connects call e r ts order w)) = length ts \<and>
           (\<forall>i < length ts. fst (concurrent_connects call e r ts order w) ! i = Finished out) \<and>
           out = (case connectError e (hd ts) of
                    None \<Rightarrow> Returns (Some (Suc (fresh w)))
                  | Some m \<Rightarrow> Throws (''Failed to connect MCP session '' @ sessionId (heap w r)
                                       @ '': '' @ m)) \<and>
           fst (snd (concurrent_connects call e r ts order w)) = [] \<and>
           trace (snd (snd (concurrent_connects call e r ts order w))) =
             trace (snd (cleanup e r w))
             @ [NewClient (Suc (fresh w)), SetOnError (hd ts) r, ClientConnect (Suc (fresh w)) (hd ts)]
             @ (case connectError e (hd ts) of
                  None \<Rightarrow> [ConsoleLog (''MCP session '' @ sessionId (heap w r)
                                        @ '' connected successfully'')]
                | Some m \<Rightarrow> []) \<and>
           length (filter (\<lambda>ev. \<exists>c. ev = NewClient c)
                     (drop (length (trace w)) (trace (snd (snd (concurrent_connects call e r ts order w))))))
             = 1 \<and>
           length (filter (\<lambda>ev. \<exists>c t. ev = ClientConnect c t)
                     (drop (length (trace w)) (trace (snd (snd (concurrent_connects call e r ts order w))))))
             = 1"
proof -
  obtain t ts' where ts: "ts = t # ts'"
    using assms(3) by (cases ts) auto
  let ?out = "fst (attempt_result e r t w)"
  let ?ats = "AtOwn (fresh w) # replicate (length ts') (AtShared (fresh w))"
  let ?res = "resume_callers e r ts order (?ats, [], attempted e r t w)"
  have eq: "concurrent_connects call e r ts order w = ?res"
    unfolding ts using assms(1,2,5) by (rule concurrent_connects_eq)
  have ats: "\<forall>i < length ?ats. ?ats ! i = AtOwn (fresh w) \<or> ?ats ! i = AtShared (fresh w)
                \<or> ?ats ! i = Finished ?out"
    by (auto simp: nth_Cons split: nat.splits)
  note rs = resume_callers_settled [OF attempted_settled ats, of e ts order]
  have len: "length (fst ?res) = length ts"
    using rs by (simp add: ts)
  have all: "\<forall>i < length ts. fst ?res ! i = Finished ?out"
  proof (intro allI impI)
    fix i assume i: "i < length ts"
    then have "i \<in> set order" using assms(4) by auto
    then show "fst ?res ! i = Finished ?out"
      using rs i by (simp add: ts)
  qed
  have tr: "trace (snd (snd ?res)) =
             trace (snd (cleanup e r w))
             @ [NewClient (Suc (fresh w)), SetOnError t r, ClientConnect (Suc (fresh w)) t]
             @ (case connectError e t of
                  None \<Rightarrow> [ConsoleLog (''MCP session '' @ sessionId (heap w r)
                                        @ '' connected successfully'')]
                | Some m \<Rightarrow> [])"
    using rs by (simp add: attempted_trace)
  let ?cc = "concurrent_connects call e r ts order w"
  have one: "length (filter (\<lambda>ev. \<exists>c. ev = NewClient c) (drop (length (trace w)) (trace (snd (snd ?res))))) = 1"
            "length (filter (\<lambda>ev. \<exists>c t. ev = ClientConnect c t) (drop (length (trace w)) (trace (snd (snd ?res))))) = 1"
    unfolding tr by (simp_all add: cleanup_trace split: option.splits)
  have c1: "length (fst ?cc) = length ts"
    using len by (simp only: eq)
  have c2: "\<forall>i < length ts. fst ?cc ! i = Finished ?out"
    using all by (simp only: eq)
  have c3: "?out = (case connectError e (hd ts) of
                    None \<Rightarrow> Returns (Some (Suc (fresh w)))
                  | Some m \<Rightarrow> Throws (''Failed to connect MCP session '' @ sessionId (heap w r)
                                       @ '': '' @ m))"
    by (simp add: ts attempt_result_fst)
  have c4: "fst (snd ?cc) = []"
    using rs by (simp only: eq)
  have c5: "trace (snd (snd ?cc)) =
             trace (snd (cleanup e r w))
             @ [NewClient (Suc (fresh w)), SetOnError (hd ts) r, ClientConnect (Suc (fresh w)) (hd ts)]
             @ (case connectError e (hd ts) of
                  None \<Rightarrow> [ConsoleLog (''MCP session '' @ sessionId (heap w r)
                                        @ '' connected successfully'')]
                | Some m \<Rightarrow> [])"
    unfolding eq using tr by (simp add: ts)
  have c6: "length (filter (\<lambda>ev. \<exists>c. ev = NewClient c)
                     (drop (length (trace w)) (trace (snd (snd ?cc))))) = 1"
    using one(1) by (simp only: eq)
  have c7: "length (filter (\<lambda>ev. \<exists>c t. ev = ClientConnect c t)
                     (drop (length (trace w)) (trace (snd (snd ?cc))))) = 1"
    using one(2) by (simp only: eq)
  show ?thesis
    using c1 c2 c3 c4 c5 c6 c7 by blast
qed


lemma freshWorld_facts:
  "\<not> isSessionConnected 0 freshWorld" "connectionPromise (heap freshWorld 0) = None"
  "fresh freshWorld = 2" "sessionId (heap freshWorld 0) = ''s''"
  by code_simp+


theorem concurrent_connects_coalesce_witness:
  "\<not> isSessionConnected 0 freshWorld \<and> connectionPromise (heap freshWorld 0) = None \<and>
   fst (concurrent_connects connect_call (calm 1000) 0 [77, 78, 79] [2, 0, 1] freshWorld)
     = [Finished (Returns (Some 3)), Finished (Returns (Some 3)), Finished (Returns (Some 3))]"
proof -
  let ?cc = "concurrent_connects connect_call (calm 1000) 0 [77, 78, 79] [2, 0, 1] freshWorld"
  have sub: "{..<length [77, 78, 79 :: nat]} \<subseteq> set [2, 0, 1 :: nat]"
    by auto
  obtain out where o: "length (fst ?cc) = 3" "\<forall>i < 3. fst ?cc ! i = Finished out"
      "out = (case connectError (calm 1000) (hd [77, 78, 79]) of
                None \<Rightarrow> Returns (Some (Suc (fresh freshWorld)))
              | Some m \<Rightarrow> Throws (''Failed to connect MCP session '' @ sessionId (heap freshWorld 0)
                                   @ '': '' @ m))"
    using concurrent_connects_coalesce
            [OF freshWorld_facts(1,2) _ sub, of connect_call "calm 1000"]
    by auto
  have out: "out = Returns (Some 3)"
    using o(3) by (simp add: calm_def freshWorld_facts)
  have "fst ?cc = [fst ?cc ! 0, fst ?cc ! 1, fst ?cc ! 2]"
    using o(1) by (cases "fst ?cc" rule: list.exhaust; simp; cases "tl (fst ?cc)"; simp;
                   cases "tl (tl (fst ?cc))"; simp)
  then have "fst ?cc = [Finished out, Finished out, Finished out]"
    using o(2) by simp
  then show ?thesis
    using freshWorld_facts(1,2) out by simp
qed


subsection \<open>The caller that waits for another caller's attempt\<close>

text \<open>
  Claim C4, as amended. A \<open>connect\<close> called on a session that is not connected while an
  attempt is recorded waits for that attempt's promise and starts nothing. It stays
  there while the promise is pending. When the attempt has failed, its error is thrown
  to the waiting caller and nothing else happens. When the attempt has succeeded and
  the session is connected, the caller gets the cached client and \<open>lastUsed\<close> is
  updated. When the attempt has succeeded and the session is not connected at that
  moment, the caller goes on to lines 96-97: it starts a \<open>doConnect\<close> of its own, with a
  new pending promise that it records on the session.
\<close>

theorem waiter_resumes:
  "(\<not> isSessionConnected r w \<and> connectionPromise (heap w r) = Some p \<longrightarrow>
      connect_call r t w = (AtShared p, [], w) \<and> connect_call_nodes e r t w = (AtShared p, [], w)) \<and>
   (promises w p = Pending \<longrightarrow> connect_resume e r t (AtShared p) w = (AtShared p, [], w)) \<and>
   (promises w p = Rejected err \<longrightarrow>
      connect_resume e r t (AtShared p) w = (Finished (Throws err), [], w)) \<and>
   (promises w p = Resolved \<and> isConnected (heap w r) \<and> client (heap w r) = Some c \<longrightarrow>
      connect_resume e r t (AtShared p) w =
        (Finished (Returns (Some c)), [], modify r (\<lambda>h. h\<lparr>lastUsed := dateNow e\<rparr>) w)) \<and>
   (promises w p = Resolved \<and> \<not> isSessionConnected r w \<longrightarrow>
      connect_resume e r t (AtShared p) w = connect_attempt r t w \<and>
      fst (connect_attempt r t w) = AtOwn (fresh w) \<and>
      fst (snd (connect_attempt r t w)) =
        [(fresh w, t, case transport (heap w r) of Some told \<Rightarrow> InCleanup told | None \<Rightarrow> AfterCleanup)] \<and>
      promises (snd (snd (connect_attempt r t w))) (fresh w) = Pending \<and>
      connectionPromise (heap (snd (snd (connect_attempt r t w))) r) = Some (fresh w))"
proof (intro conjI impI)
  assume "\<not> isSessionConnected r w \<and> connectionPromise (heap w r) = Some p"
  then show "connect_call r t w = (AtShared p, [], w)"
    and "connect_call_nodes e r t w = (AtShared p, [], w)"
    using connect_call_waits by blast+
next
  assume "promises w p = Pending"
  then show "connect_resume e r t (AtShared p) w = (AtShared p, [], w)"
    by (simp add: connect_resume_def)
next
  assume "promises w p = Rejected err"
  then show "connect_resume e r t (AtShared p) w = (Finished (Throws err), [], w)"
    by (simp add: connect_resume_def)
next
  assume "promises w p = Resolved \<and> isConnected (heap w r) \<and> client (heap w r) = Some c"
  then show "connect_resume e r t (AtShared p) w =
        (Finished (Returns (Some c)), [], modify r (\<lambda>h. h\<lparr>lastUsed := dateNow e\<rparr>) w)"
    by (simp add: connect_resume_def Let_def)
next
  assume a: "promises w p = Resolved \<and> \<not> isSessionConnected r w"
  then show "connect_resume e r t (AtShared p) w = connect_attempt r t w"
    by (auto simp: connect_resume_def isSessionConnected_def)
  show "fst (connect_attempt r t w) = AtOwn (fresh w)"
    by (rule connect_attempt_fst)
  show "fst (snd (connect_attempt r t w)) =
        [(fresh w, t, case transport (heap w r) of Some told \<Rightarrow> InCleanup told | None \<Rightarrow> AfterCleanup)]"
    by (rule connect_attempt_attempts)
  show "promises (snd (snd (connect_attempt r t w))) (fresh w) = Pending"
    by (simp add: connect_attempt_world doConnect_call_snd)
  show "connectionPromise (heap (snd (snd (connect_attempt r t w))) r) = Some (fresh w)"
    by (simp add: connect_attempt_world)
qed


lemma race_steps:
  "fst (connect_call 0 77 (snd (getInstance (calm 1000) ''s'' startWorld))) = AtOwn 2"
  "fst (snd (connect_call 0 77 (snd (getInstance (calm 1000) ''s'' startWorld)))) = [(2, 77, AfterCleanup)]"
  "fst (connect_call 0 78 (snd (snd (connect_call 0 77 (snd (getInstance (calm 1000) ''s'' startWorld)))))) = AtShared 2"
  "fst (doConnect_resume (calm 1000) 0 (2, 77, AfterCleanup)
          (snd (snd (connect_call 0 78 (snd (snd (connect_call 0 77
             (snd (getInstance (calm 1000) ''s'' startWorld)))))))))
     = (2, 77, InHandshake 3)"
  by code_simp+

lemma raceWorld_facts:
  "promises raceWorld 2 = Resolved" "isConnected (heap raceWorld 0)" "client (heap raceWorld 0) = None"
  "transport (heap raceWorld 0) = Some 77" "fresh raceWorld = 4"
  by code_simp+


lemma inFlightWorld_facts:
  "\<not> isSessionConnected 0 inFlightWorld" "connectionPromise (heap inFlightWorld 0) = Some 2"
  "promises inFlightWorld 2 = Pending"
  by code_simp+

lemma settled_worlds_facts:
  "promises (snd (snd (concurrent_connects connect_call (failing 1000) 0 [77] [] freshWorld))) 2
     = Rejected ''Failed to connect MCP session s: refused''"
  "promises (snd (snd (concurrent_connects connect_call (calm 1000) 0 [77] [] freshWorld))) 2 = Resolved"
  "isConnected (heap (snd (snd (concurrent_connects connect_call (calm 1000) 0 [77] [] freshWorld))) 0)"
  "client (heap (snd (snd (concurrent_connects connect_call (calm 1000) 0 [77] [] freshWorld))) 0) = Some 3"
  by code_simp+

lemma raceWorld_unconnected: "\<not> isSessionConnected 0 raceWorld"
  by (simp add: isSessionConnected_def raceWorld_facts)


theorem waiter_resumes_witness:
  "connect_call 0 78 inFlightWorld = (AtShared 2, [], inFlightWorld) \<and>
   connect_resume (calm 2000) 0 78 (AtShared 2) inFlightWorld = (AtShared 2, [], inFlightWorld) \<and>
   fst (connect_resume (calm 2000) 0 78 (AtShared 2)
          (snd (snd (concurrent_connects connect_call (failing 1000) 0 [77] [] freshWorld))))
     = Finished (Throws ''Failed to connect MCP session s: refused'') \<and>
   fst (connect_resume (calm 2000) 0 78 (AtShared 2)
          (snd (snd (concurrent_connects connect_call (calm 1000) 0 [77] [] freshWorld))))
     = Finished (Returns (Some 3)) \<and>
   fst (connect_resume (calm 2000) 0 78 (AtShared 2) raceWorld) = AtOwn (fresh raceWorld)"
  using waiter_resumes [of 0 inFlightWorld 2 78 "calm 2000"]
        waiter_resumes [of 0 "snd (snd (concurrent_connects connect_call (failing 1000) 0 [77] [] freshWorld))"
                           2 78 "calm 2000" "''Failed to connect MCP session s: refused''"]
        waiter_resumes [of 0 "snd (snd (concurrent_connects connect_call (calm 1000) 0 [77] [] freshWorld))"
                           2 78 "calm 2000" _ 3]
        waiter_resumes [of 0 raceWorld 2 78 "calm 2000"]
        inFlightWorld_facts settled_worlds_facts raceWorld_facts(1) raceWorld_unconnected
  by simp


text \<open>
  The claim as stated fails in \<open>raceWorld\<close>: the shared attempt (promise 2) has ended
  without a failure, the session is not connected, and the waiting caller B neither
  returns nor throws: it starts a second \<open>doConnect\<close> (promise 4), which closes
  transport 77 and then creates another client, 5.
\<close>

theorem waiter_starts_attempt_counterexample:
  "promises raceWorld 2 = Resolved \<and>
   \<not> isSessionConnected 0 raceWorld \<and>
   fst (connect_resume (calm 2000) 0 78 (AtShared 2) raceWorld) = AtOwn 4 \<and>
   fst (snd (connect_resume (calm 2000) 0 78 (AtShared 2) raceWorld)) = [(4, 78, InCleanup 77)] \<and>
   NewClient 5 \<in> set (trace (snd (connect_finish (calm 2000) 0 78
                                    (connect_resume (calm 2000) 0 78 (AtShared 2) raceWorld))))"
  by code_simp


subsection \<open>\<open>cleanupAllSessions\<close>\<close>

lemma afterCall_simps [simp]:
  "transport (afterCall h) = transport h" "afterCall (afterCall h) = afterCall h"
  "cleanupTimer (afterCall h) = None" "sessionId (afterCall h) = sessionId h"
  "lastUsed (afterCall h) = lastUsed h"
  by (auto simp: afterCall_def split: option.splits)

lemma afterCall_cleared: "transport h = None \<Longrightarrow> client (afterCall h) = None \<and> \<not> isConnected (afterCall h)"
  by (simp add: afterCall_def)

lemma afterClose_simps [simp]:
  "transport (afterClose h) = None" "client (afterClose h) = None" "\<not> isConnected (afterClose h)"
  "cleanupTimer (afterClose h) = cleanupTimer h" "afterClose (afterClose h) = afterClose h"
  by (simp_all add: afterClose_def)

lemma cleanup_call_afterCall: "heap (snd (cleanup_call r w)) = (heap w)(r := afterCall (heap w r))"
  by (simp add: cleanup_call_heap afterCall_def)

lemma cleanup_resume_afterClose: "heap (cleanup_resume r err w) = (heap w)(r := afterClose (heap w r))"
  by (simp add: cleanup_resume_heap afterClose_def)

lemma cleanup_calls_Cons:
  "cleanup_calls (r # rs) w =
     ((case transport (heap w r) of Some t \<Rightarrow> [(r, t)] | None \<Rightarrow> [])
        @ fst (cleanup_calls rs (snd (cleanup_call r w))),
      snd (cleanup_calls rs (snd (cleanup_call r w))))"
  using cleanup_call_fst [of r w]
  by (cases "cleanup_call r w"; cases "cleanup_calls rs (snd (cleanup_call r w))") auto

lemma cleanup_calls_frame [simp]:
  "instances (snd (cleanup_calls rs w)) = instances w"
  "fresh (snd (cleanup_calls rs w)) = fresh w"
  "promises (snd (cleanup_calls rs w)) = promises w"
  by (induction rs arbitrary: w; simp add: cleanup_calls_Cons del: cleanup_calls.simps(2))+

lemma cleanup_calls_heap:
  "heap (snd (cleanup_calls rs w)) r = (if r \<in> set rs then afterCall (heap w r) else heap w r)"
  by (induction rs arbitrary: w)
     (auto simp: cleanup_calls_Cons cleanup_call_afterCall simp del: cleanup_calls.simps(2))

lemma cleanup_calls_pend:
  "fst (cleanup_calls rs w) =
     concat (map (\<lambda>r. case transport (heap w r) of Some t \<Rightarrow> [(r, t)] | None \<Rightarrow> []) rs)"
proof (induction rs arbitrary: w)
  case Nil
  then show ?case by simp
next
  case (Cons r0 rs)
  have "\<And>r. transport (heap (snd (cleanup_call r0 w)) r) = transport (heap w r)"
    by (simp add: cleanup_call_afterCall)
  then show ?case
    using Cons.IH [of "snd (cleanup_call r0 w)"]
    by (simp add: cleanup_calls_Cons del: cleanup_calls.simps(2))
qed

lemma cleanup_calls_trace_grows:
  "\<exists>evs. trace (snd (cleanup_calls rs w)) = trace w @ evs"
proof (induction rs arbitrary: w)
  case Nil
  then show ?case by simp
next
  case (Cons r0 rs)
  obtain evs where "trace (snd (cleanup_calls rs (snd (cleanup_call r0 w)))) =
                      trace (snd (cleanup_call r0 w)) @ evs"
    using Cons.IH by blast
  then show ?case
    by (simp add: cleanup_calls_Cons cleanup_call_trace del: cleanup_calls.simps(2))
qed

lemma cleanup_calls_closes:
  assumes "r \<in> set rs"
  shows "(\<forall>t. transport (heap w r) = Some t \<longrightarrow> TransportClose t \<in> set (trace (snd (cleanup_calls rs w)))) \<and>
         (\<forall>tm. cleanupTimer (heap w r) = Some tm \<longrightarrow> ClearTimeout tm \<in> set (trace (snd (cleanup_calls rs w))))"
  using assms
proof (induction rs arbitrary: w)
  case Nil
  then show ?case by simp
next
  case (Cons r0 rs)
  let ?w1 = "snd (cleanup_call r0 w)"
  obtain evs where g: "trace (snd (cleanup_calls rs ?w1)) = trace ?w1 @ evs"
    using cleanup_calls_trace_grows by blast
  show ?case
  proof (cases "r = r0")
    case True
    then show ?thesis
      by (auto simp: cleanup_calls_Cons g cleanup_call_trace simp del: cleanup_calls.simps(2))
  next
    case False
    then have "r \<in> set rs" using Cons.prems by simp
    from Cons.IH [OF this, of ?w1] False show ?thesis
      by (simp add: cleanup_calls_Cons cleanup_call_afterCall del: cleanup_calls.simps(2))
  qed
qed

lemma settle_cleanups_frame [simp]:
  "instances (settle_cleanups e pend w) = instances w"
  "fresh (settle_cleanups e pend w) = fresh w"
  "promises (settle_cleanups e pend w) = promises w"
  unfolding settle_cleanups_def
  by (induction pend arbitrary: w; simp split: prod.splits)+

lemma settle_cleanups_heap:
  "heap (settle_cleanups e pend w) r = (if r \<in> fst ` set pend then afterClose (heap w r) else heap w r)"
  unfolding settle_cleanups_def
proof (induction pend arbitrary: w)
  case Nil
  then show ?case by simp
next
  case (Cons a pend)
  obtain r0 t0 where a: "a = (r0, t0)" by (cases a)
  show ?case
    using Cons.IH [of "cleanup_resume r0 (closeError e t0) w"]
    by (auto simp: a cleanup_resume_afterClose)
qed

lemma settle_cleanups_trace_grows:
  "\<exists>evs. trace (settle_cleanups e pend w) = trace w @ evs"
  unfolding settle_cleanups_def
proof (induction pend arbitrary: w)
  case Nil
  then show ?case by simp
next
  case (Cons a pend)
  obtain r0 t0 where a: "a = (r0, t0)" by (cases a)
  obtain evs where "trace (fold (\<lambda>(r, t). cleanup_resume r (closeError e t)) pend
                              (cleanup_resume r0 (closeError e t0) w))
                    = trace (cleanup_resume r0 (closeError e t0) w) @ evs"
    using Cons.IH by blast
  then show ?case
    by (simp add: a cleanup_resume_trace)
qed


text \<open>
  Claim C8. \<open>cleanupAllSessions\<close> returns, whatever becomes of the closes. Afterwards
  the registry is empty, and every session manager that was in it has been cleaned
  up to the end: it holds no client, no transport and no timer and is not connected,
  its transport, if it had one, has been closed and its timer, if it had one, cleared.
  The line \<open>All MCP sessions cleaned up\<close> is the last thing written, after all the
  cleanups.
\<close>

theorem cleanupAllSessions_empties:
  "fst (cleanupAllSessions e w) = Returns () \<and>
   instances (snd (cleanupAllSessions e w)) = [] \<and>
   (\<exists>evs. trace (snd (cleanupAllSessions e w)) =
            trace w @ evs @ [ConsoleLog ''All MCP sessions cleaned up'']) \<and>
   (\<forall>(sid, r) \<in> set (instances w).
      client (heap (snd (cleanupAllSessions e w)) r) = None \<and>
      transport (heap (snd (cleanupAllSessions e w)) r) = None \<and>
      \<not> isConnected (heap (snd (cleanupAllSessions e w)) r) \<and>
      cleanupTimer (heap (snd (cleanupAllSessions e w)) r) = None \<and>
      (\<forall>t. transport (heap w r) = Some t \<longrightarrow>
           TransportClose t \<in> set (trace (snd (cleanupAllSessions e w)))) \<and>
      (\<forall>tm. cleanupTimer (heap w r) = Some tm \<longrightarrow>
           ClearTimeout tm \<in> set (trace (snd (cleanupAllSessions e w)))))"
proof -
  let ?rs = "map snd (instances w)"
  let ?w1 = "snd (cleanup_calls ?rs w)"
  let ?pend = "fst (cleanup_calls ?rs w)"
  let ?w2 = "settle_cleanups e ?pend ?w1"
  have res: "cleanupAllSessions e w =
               (Returns (), emit (ConsoleLog ''All MCP sessions cleaned up'') (?w2\<lparr>instances := []\<rparr>))"
    by (simp add: cleanupAllSessions_def Let_def split: prod.splits)
  have each: "client (heap ?w2 r) = None \<and> transport (heap ?w2 r) = None \<and>
              \<not> isConnected (heap ?w2 r) \<and> cleanupTimer (heap ?w2 r) = None \<and>
              (\<forall>t. transport (heap w r) = Some t \<longrightarrow> TransportClose t \<in> set (trace ?w2)) \<and>
              (\<forall>tm. cleanupTimer (heap w r) = Some tm \<longrightarrow> ClearTimeout tm \<in> set (trace ?w2))"
    if r: "r \<in> set ?rs" for r
  proof -
    have h1: "heap ?w1 r = afterCall (heap w r)"
      using r by (simp add: cleanup_calls_heap)
    obtain evs where g: "trace ?w2 = trace ?w1 @ evs"
      using settle_cleanups_trace_grows by blast
    have tr: "(\<forall>t. transport (heap w r) = Some t \<longrightarrow> TransportClose t \<in> set (trace ?w2)) \<and>
              (\<forall>tm. cleanupTimer (heap w r) = Some tm \<longrightarrow> ClearTimeout tm \<in> set (trace ?w2))"
      using cleanup_calls_closes [OF r, of w] by (simp add: g)
    show ?thesis
    proof (cases "transport (heap w r)")
      case None
      then have "r \<notin> fst ` set ?pend"
        by (auto simp: cleanup_calls_pend split: option.splits)
      then have "heap ?w2 r = afterCall (heap w r)"
        by (simp add: settle_cleanups_heap h1)
      then show ?thesis
        using tr None afterCall_cleared [OF None] by simp
    next
      case (Some t)
      then have "(r, t) \<in> set ?pend"
        using r by (force simp: cleanup_calls_pend)
      then have "r \<in> fst ` set ?pend"
        by force
      then have "heap ?w2 r = afterClose (afterCall (heap w r))"
        by (simp add: settle_cleanups_heap h1)
      then show ?thesis
        using tr by simp
    qed
  qed
  have last: "\<exists>evs. trace (snd (cleanupAllSessions e w)) =
                 trace w @ evs @ [ConsoleLog ''All MCP sessions cleaned up'']"
  proof -
    obtain evs1 where e1: "trace ?w1 = trace w @ evs1"
      using cleanup_calls_trace_grows by blast
    obtain evs2 where e2: "trace ?w2 = trace ?w1 @ evs2"
      using settle_cleanups_trace_grows by blast
    show ?thesis
      unfolding res by (intro exI [of _ "evs1 @ evs2"]) (simp add: e1 e2)
  qed
  have all: "\<forall>(sid, r) \<in> set (instances w).
      client (heap ?w2 r) = None \<and> transport (heap ?w2 r) = None \<and>
      \<not> isConnected (heap ?w2 r) \<and> cleanupTimer (heap ?w2 r) = None \<and>
      (\<forall>t. transport (heap w r) = Some t \<longrightarrow> TransportClose t \<in> set (trace ?w2)) \<and>
      (\<forall>tm. cleanupTimer (heap w r) = Some tm \<longrightarrow> ClearTimeout tm \<in> set (trace ?w2))"
    using each by force
  show ?thesis
    using last all unfolding res by (simp add: case_prod_unfold)
qed

lemma twoSessionsWorld_facts:
  "instances twoSessionsWorld = [(''s'', 0), (''t'', 4)]"
  "transport (heap twoSessionsWorld 0) = Some 77"
  "lastUsed (heap twoSessionsWorld 0) = 1000"
  "lastUsed (heap twoSessionsWorld 4) = 1500000"
  "cleanupTimer (heap twoSessionsWorld 4) = Some 5"
  by code_simp+


theorem cleanupAllSessions_empties_witness:
  "instances twoSessionsWorld = [(''s'', 0), (''t'', 4)] \<and>
   fst (cleanupAllSessions ((calm 2000000)\<lparr>closeError := (\<lambda>t. Some ''stuck'')\<rparr>) twoSessionsWorld) = Returns () \<and>
   instances (snd (cleanupAllSessions ((calm 2000000)\<lparr>closeError := (\<lambda>t. Some ''stuck'')\<rparr>) twoSessionsWorld)) = [] \<and>
   client (heap (snd (cleanupAllSessions ((calm 2000000)\<lparr>closeError := (\<lambda>t. Some ''stuck'')\<rparr>) twoSessionsWorld)) 0)
     = None \<and>
   transport (heap (snd (cleanupAllSessions ((calm 2000000)\<lparr>closeError := (\<lambda>t. Some ''stuck'')\<rparr>) twoSessionsWorld)) 0)
     = None \<and>
   TransportClose 77
     \<in> set (trace (snd (cleanupAllSessions ((calm 2000000)\<lparr>closeError := (\<lambda>t. Some ''stuck'')\<rparr>) twoSessionsWorld))) \<and>
   ClearTimeout 5
     \<in> set (trace (snd (cleanupAllSessions ((calm 2000000)\<lparr>closeError := (\<lambda>t. Some ''stuck'')\<rparr>) twoSessionsWorld)))"
  using cleanupAllSessions_empties [of "(calm 2000000)\<lparr>closeError := (\<lambda>t. Some ''stuck'')\<rparr>" twoSessionsWorld]
        twoSessionsWorld_facts
  by simp


subsection \<open>The sweep\<close>

lemma expire_simps [simp]:
  "heap (expire sid r w) = (heap w)(r := afterCall (heap w r))"
  "instances (expire sid r w) = filter (\<lambda>(k, v). k \<noteq> sid) (instances w)"
  "fresh (expire sid r w) = fresh w"
  "promises (expire sid r w) = promises w"
  "trace (expire sid r w) =
     trace w
     @ (case cleanupTimer (heap w r) of Some tm \<Rightarrow> [ClearTimeout tm] | None \<Rightarrow> [])
     @ (case transport (heap w r) of
          Some t \<Rightarrow> [TransportClose t]
        | None \<Rightarrow> [ConsoleLog (''MCP session '' @ sessionId (heap w r) @ '' cleaned up'')])
     @ [ConsoleLog (''Expired MCP session '' @ sid @ '' removed'')]"
  by (simp_all add: expire_def cleanup_call_afterCall cleanup_call_trace)

lemma cleanupExpired_None:
  "map_of (instances w) sid = None \<Longrightarrow>
     cleanupExpired (sid # sids) (pend, w) = cleanupExpired sids (pend, w)"
  by simp

lemma cleanupExpired_Some:
  "map_of (instances w) sid = Some r \<Longrightarrow>
     cleanupExpired (sid # sids) (pend, w) =
       cleanupExpired sids
         (pend @ (case transport (heap w r) of Some t \<Rightarrow> [(r, t)] | None \<Rightarrow> []), expire sid r w)"
  using cleanup_call_fst [of r w] cleanup_call_frame(1) [of r w]
  by (cases "cleanup_call r w") (auto simp: expire_def Let_def)

lemma map_of_filter_key:
  "k \<noteq> sid \<Longrightarrow> map_of (filter (\<lambda>(k', v). k' \<noteq> sid) xs) k = map_of xs k"
  by (induction xs) auto

lemma filter_filter_keys:
  "filter (\<lambda>(k, v). k \<notin> set sids) (filter (\<lambda>(k, v). k \<noteq> sid) xs) =
     filter (\<lambda>(k, v). k \<notin> set (sid # sids)) xs"
  by (induction xs) auto

lemma filter_absent_key:
  "map_of xs sid = None \<Longrightarrow>
     filter (\<lambda>(k, v). k \<notin> set sids) xs = filter (\<lambda>(k, v). k \<notin> set (sid # sids)) xs"
  by (induction xs) (auto split: if_splits)

lemma cleanupExpired_instances:
  "instances (snd (cleanupExpired sids (pend, w))) = filter (\<lambda>(k, v). k \<notin> set sids) (instances w)"
proof (induction sids arbitrary: pend w)
  case Nil
  then show ?case by simp
next
  case (Cons sid sids)
  show ?case
  proof (cases "map_of (instances w) sid")
    case None
    then show ?thesis
      using Cons.IH [of pend w] filter_absent_key [OF None, of sids]
      by (simp only: cleanupExpired_None)
  next
    case (Some r)
    show ?thesis
      using Cons.IH [of _ "expire sid r w"]
      by (simp only: cleanupExpired_Some [OF Some] expire_simps filter_filter_keys)
  qed
qed

lemma cleanupExpired_frame:
  "fresh (snd (cleanupExpired sids (pend, w))) = fresh w"
  "transport (heap (snd (cleanupExpired sids (pend, w))) r) = transport (heap w r)"
  "heap (snd (cleanupExpired sids (pend, w))) r = heap w r \<or>
   heap (snd (cleanupExpired sids (pend, w))) r = afterCall (heap w r)"
proof (induction sids arbitrary: pend w)
  case Nil
  {
    case 1 show ?case by simp
  next
    case 2 show ?case by simp
  next
    case 3 show ?case by simp
  }
next
  case (Cons sid sids)
  {
    case 1
    show ?case
    proof (cases "map_of (instances w) sid")
      case None
      then show ?thesis using Cons.IH(1) by (simp only: cleanupExpired_None)
    next
      case (Some r0)
      then show ?thesis using Cons.IH(1) [of _ "expire sid r0 w"]
        by (simp only: cleanupExpired_Some [OF Some] expire_simps)
    qed
  next
    case 2
    show ?case
    proof (cases "map_of (instances w) sid")
      case None
      then show ?thesis using Cons.IH(2) by (simp only: cleanupExpired_None)
    next
      case (Some r0)
      then show ?thesis using Cons.IH(2) [of _ "expire sid r0 w"]
        by (simp add: cleanupExpired_Some [OF Some] del: cleanupExpired.simps)
    qed
  next
    case 3
    show ?case
    proof (cases "map_of (instances w) sid")
      case None
      then show ?thesis using Cons.IH(3) by (simp only: cleanupExpired_None)
    next
      case (Some r0)
      then show ?thesis using Cons.IH(3) [of _ "expire sid r0 w"]
        by (cases "r = r0") (auto simp: cleanupExpired_Some [OF Some] simp del: cleanupExpired.simps)
    qed
  }
qed

lemma cleanupExpired_untouched:
  assumes "\<forall>sid \<in> set sids. map_of (instances w) sid \<noteq> Some r"
  shows "heap (snd (cleanupExpired sids (pend, w))) r = heap w r"
  using assms
proof (induction sids arbitrary: pend w)
  case Nil
  then show ?case by simp
next
  case (Cons sid sids)
  show ?case
  proof (cases "map_of (instances w) sid")
    case None
    then show ?thesis using Cons by (simp only: cleanupExpired_None) simp
  next
    case (Some r0)
    have ne: "r0 \<noteq> r" using Cons.prems Some by auto
    have "\<forall>sid' \<in> set sids. map_of (instances (expire sid r0 w)) sid' \<noteq> Some r"
    proof
      fix sid' assume s: "sid' \<in> set sids"
      show "map_of (instances (expire sid r0 w)) sid' \<noteq> Some r"
      proof (cases "sid' = sid")
        case True
        have "map_of (filter (\<lambda>(k, v). k \<noteq> sid) (instances w)) sid = None"
          by (auto simp: map_of_eq_None_iff)
        then show ?thesis using True by simp
      next
        case False
        then show ?thesis using Cons.prems s by (simp add: map_of_filter_key)
      qed
    qed
    from Cons.IH [OF this] ne show ?thesis
      by (simp add: cleanupExpired_Some [OF Some] del: cleanupExpired.simps)
  qed
qed

lemma cleanupExpired_trace:
  "\<exists>evs. trace (snd (cleanupExpired sids (pend, w))) = trace w @ evs \<and> (\<forall>ev \<in> set evs. quiet ev)"
proof (induction sids arbitrary: pend w)
  case Nil
  then show ?case by simp
next
  case (Cons sid sids)
  show ?case
  proof (cases "map_of (instances w) sid")
    case None
    then show ?thesis using Cons.IH by (simp only: cleanupExpired_None)
  next
    case (Some r0)
    obtain evs where e: "trace (snd (cleanupExpired sids
        (pend @ (case transport (heap w r0) of Some t \<Rightarrow> [(r0, t)] | None \<Rightarrow> []), expire sid r0 w))) =
        trace (expire sid r0 w) @ evs" "\<forall>ev \<in> set evs. quiet ev"
      using Cons.IH by blast
    show ?thesis
      unfolding cleanupExpired_Some [OF Some] e(1)
      using e(2) by (auto simp: quiet_def split: option.splits)
  qed
qed

lemma cleanupExpired_pend:
  "\<exists>new. fst (cleanupExpired sids (pend, w)) = pend @ new \<and>
         (\<forall>(r, t) \<in> set new. transport (heap w r) = Some t)"
proof (induction sids arbitrary: pend w)
  case Nil
  then show ?case by simp
next
  case (Cons sid sids)
  show ?case
  proof (cases "map_of (instances w) sid")
    case None
    then show ?thesis using Cons.IH by (simp only: cleanupExpired_None)
  next
    case (Some r0)
    let ?p = "case transport (heap w r0) of Some t \<Rightarrow> [(r0, t)] | None \<Rightarrow> []"
    obtain new where n: "fst (cleanupExpired sids (pend @ ?p, expire sid r0 w)) = (pend @ ?p) @ new"
        "\<forall>(r, t) \<in> set new. transport (heap (expire sid r0 w) r) = Some t"
      using Cons.IH by blast
    have "\<forall>(r, t) \<in> set (?p @ new). transport (heap w r) = Some t"
      using n(2) by (auto split: option.splits if_splits)
    then show ?thesis
      unfolding cleanupExpired_Some [OF Some] using n(1) by (intro exI [of _ "?p @ new"]) simp
  qed
qed

lemma cleanupExpired_touched:
  assumes "sid \<in> set sids" "map_of (instances w) sid = Some r"
  shows "heap (snd (cleanupExpired sids (pend, w))) r = afterCall (heap w r) \<and>
         (\<forall>t. transport (heap w r) = Some t \<longrightarrow> (r, t) \<in> set (fst (cleanupExpired sids (pend, w)))) \<and>
         (\<exists>pre post.
            trace (snd (cleanupExpired sids (pend, w))) =
              trace w @ pre
              @ [case transport (heap w r) of
                   Some t \<Rightarrow> TransportClose t
                 | None \<Rightarrow> ConsoleLog (''MCP session '' @ sessionId (heap w r) @ '' cleaned up'')]
              @ post \<and>
            ConsoleLog (''Expired MCP session '' @ sid @ '' removed'') \<in> set post)"
  using assms
proof (induction sids arbitrary: pend w)
  case Nil
  then show ?case by simp
next
  case (Cons sid0 sids)
  show ?case
  proof (cases "sid0 = sid")
    case True
    let ?p = "case transport (heap w r) of Some t \<Rightarrow> [(r, t)] | None \<Rightarrow> []"
    let ?res = "cleanupExpired sids (pend @ ?p, expire sid r w)"
    have step: "cleanupExpired (sid0 # sids) (pend, w) = ?res"
      using True Cons.prems(2) by (simp only: cleanupExpired_Some)
    have "heap (snd ?res) r = heap (expire sid r w) r \<or>
          heap (snd ?res) r = afterCall (heap (expire sid r w) r)"
      by (rule cleanupExpired_frame(3))
    then have h: "heap (snd ?res) r = afterCall (heap w r)"
      by auto
    obtain new where "fst ?res = (pend @ ?p) @ new"
      using cleanupExpired_pend by blast
    then have p: "\<forall>t. transport (heap w r) = Some t \<longrightarrow> (r, t) \<in> set (fst ?res)"
      by auto
    obtain evs where e: "trace (snd ?res) = trace (expire sid r w) @ evs"
      using cleanupExpired_trace by blast
    have "trace (snd ?res) =
            trace w @ (case cleanupTimer (heap w r) of Some tm \<Rightarrow> [ClearTimeout tm] | None \<Rightarrow> [])
            @ [case transport (heap w r) of
                   Some t \<Rightarrow> TransportClose t
                 | None \<Rightarrow> ConsoleLog (''MCP session '' @ sessionId (heap w r) @ '' cleaned up'')]
            @ (ConsoleLog (''Expired MCP session '' @ sid @ '' removed'') # evs)"
      unfolding e by (simp split: option.splits)
    then have t: "\<exists>pre post.
            trace (snd ?res) =
              trace w @ pre
              @ [case transport (heap w r) of
                   Some t \<Rightarrow> TransportClose t
                 | None \<Rightarrow> ConsoleLog (''MCP session '' @ sessionId (heap w r) @ '' cleaned up'')]
              @ post \<and>
            ConsoleLog (''Expired MCP session '' @ sid @ '' removed'') \<in> set post"
      by (metis list.set_intros(1))
    show ?thesis
      unfolding step using h p t by blast
  next
    case False
    then have in_sids: "sid \<in> set sids" using Cons.prems(1) by simp
    show ?thesis
    proof (cases "map_of (instances w) sid0")
      case None
      show ?thesis
        unfolding cleanupExpired_None [OF None] by (rule Cons.IH [OF in_sids Cons.prems(2)])
    next
      case (Some r0)
      let ?p = "case transport (heap w r0) of Some t \<Rightarrow> [(r0, t)] | None \<Rightarrow> []"
      let ?w1 = "expire sid0 r0 w"
      let ?res = "cleanupExpired sids (pend @ ?p, ?w1)"
      have step: "cleanupExpired (sid0 # sids) (pend, w) = ?res"
        using Some by (simp only: cleanupExpired_Some)
      have m: "map_of (instances ?w1) sid = Some r"
        using False Cons.prems(2) by (simp add: map_of_filter_key)
      note ih = Cons.IH [OF in_sids m, of "pend @ ?p"]
      have tr: "transport (heap ?w1 r) = transport (heap w r)"
           "sessionId (heap ?w1 r) = sessionId (heap w r)"
           "afterCall (heap ?w1 r) = afterCall (heap w r)"
        by auto
      obtain pre post where pp: "trace (snd ?res) =
              trace ?w1 @ pre
              @ [case transport (heap w r) of
                   Some t \<Rightarrow> TransportClose t
                 | None \<Rightarrow> ConsoleLog (''MCP session '' @ sessionId (heap w r) @ '' cleaned up'')]
              @ post" "ConsoleLog (''Expired MCP session '' @ sid @ '' removed'') \<in> set post"
        using ih unfolding tr by blast
      obtain evs1 where e1: "trace ?w1 = trace w @ evs1"
        by simp
      have t: "\<exists>pre post.
            trace (snd ?res) =
              trace w @ pre
              @ [case transport (heap w r) of
                   Some t \<Rightarrow> TransportClose t
                 | None \<Rightarrow> ConsoleLog (''MCP session '' @ sessionId (heap w r) @ '' cleaned up'')]
              @ post \<and>
            ConsoleLog (''Expired MCP session '' @ sid @ '' removed'') \<in> set post"
        using pp unfolding e1 by (intro exI [of _ "evs1 @ pre"] exI [of _ post]) simp
      show ?thesis
        unfolding step using ih t unfolding tr by blast
    qed
  qed
qed

lemma filter_fresh_key:
  "k \<notin> fst ` set xs \<Longrightarrow>
     filter (\<lambda>(k', v). k' \<notin> insert k A) xs = filter (\<lambda>(k', v). k' \<notin> A) xs"
  by (induction xs) auto

lemma filter_keys_distinct:
  "distinct (map fst xs) \<Longrightarrow>
     filter (\<lambda>(k, v). k \<notin> set (map fst (filter P xs))) xs = filter (\<lambda>x. \<not> P x) xs"
proof (induction xs)
  case Nil
  then show ?case by simp
next
  case (Cons x xs)
  obtain k v where x: "x = (k, v)" by (cases x)
  have k: "k \<notin> fst ` set xs" using Cons.prems x by simp
  then have k': "k \<notin> set (map fst (filter P xs))" by auto
  have ih: "filter (\<lambda>(k, v). k \<notin> set (map fst (filter P xs))) xs = filter (\<lambda>x. \<not> P x) xs"
    using Cons by simp
  show ?case
  proof (cases "P x")
    case True
    then show ?thesis
      using ih filter_fresh_key [OF k, of "set (map fst (filter P xs))"] by (simp add: x)
  next
    case False
    then show ?thesis
      using ih k' by (simp add: x)
  qed
qed

lemma sweep_eq:
  "checkAndCleanupExpiredSessions e this w =
     (fst (cleanupExpired (expiredSessions (dateNow e) w) ([], w)),
      if instances (snd (cleanupExpired (expiredSessions (dateNow e) w) ([], w))) \<noteq> []
      then startCleanupTimer this (snd (cleanupExpired (expiredSessions (dateNow e) w) ([], w)))
      else snd (cleanupExpired (expiredSessions (dateNow e) w) ([], w)))"
  by (simp add: checkAndCleanupExpiredSessions_def split: prod.splits)

lemma sweep_parts:
  "fst (checkAndCleanupExpiredSessions e this w) =
     fst (cleanupExpired (expiredSessions (dateNow e) w) ([], w))"
  "instances (snd (checkAndCleanupExpiredSessions e this w)) =
     instances (snd (cleanupExpired (expiredSessions (dateNow e) w) ([], w)))"
  "trace (snd (checkAndCleanupExpiredSessions e this w)) =
     trace (snd (cleanupExpired (expiredSessions (dateNow e) w) ([], w)))
     @ (if instances (snd (cleanupExpired (expiredSessions (dateNow e) w) ([], w))) \<noteq> []
        then [SetTimeout (fresh w) CLEANUP_INTERVAL] else [])"
  "client (heap (snd (checkAndCleanupExpiredSessions e this w)) r) =
     client (heap (snd (cleanupExpired (expiredSessions (dateNow e) w) ([], w))) r)"
  "transport (heap (snd (checkAndCleanupExpiredSessions e this w)) r) =
     transport (heap (snd (cleanupExpired (expiredSessions (dateNow e) w) ([], w))) r)"
  "isConnected (heap (snd (checkAndCleanupExpiredSessions e this w)) r) =
     isConnected (heap (snd (cleanupExpired (expiredSessions (dateNow e) w) ([], w))) r)"
  "r \<noteq> this \<Longrightarrow> heap (snd (checkAndCleanupExpiredSessions e this w)) r =
     heap (snd (cleanupExpired (expiredSessions (dateNow e) w) ([], w))) r"
  by (simp_all add: sweep_eq startCleanupTimer_heap cleanupExpired_frame(1))


text \<open>
  Claim C5. On a registry (a map: its keys are distinct) a sweep at time \<open>dateNow e\<close>
  leaves exactly the sessions whose \<open>lastUsed\<close> is not more than \<open>SESSION_TIMEOUT\<close>
  (30 minutes) old, in their order. For each session it removes, \<open>cleanup\<close> has been
  called before the removal: the last call \<open>cleanup\<close> makes before it waits or ends
  (the close of the transport, or its log line) stands in the trace before the line
  \<open>Expired MCP session ... removed\<close>, and a cleanup that waits for its transport to
  close is handed back. Once those have resumed, however the closes went, the removed
  sessions hold no client and no transport and are not connected, and the registry is
  as the sweep left it. A session manager that no expired entry names, other than the
  one whose timer ran the sweep, is left as it was. The sweep sets a new timer exactly
  when the registry is not empty at its end, and nothing else in it sets one.
\<close>

theorem sweep_removes_expired:
  assumes "distinct (map fst (instances w))"
  shows
   "instances (snd (checkAndCleanupExpiredSessions e this w)) =
      filter (\<lambda>(sid, r). \<not> dateNow e - lastUsed (heap w r) > SESSION_TIMEOUT) (instances w) \<and>
    (\<forall>(sid, r) \<in> set (instances w).
       dateNow e - lastUsed (heap w r) > SESSION_TIMEOUT \<longrightarrow>
         (\<forall>t. transport (heap w r) = Some t \<longrightarrow>
              (r, t) \<in> set (fst (checkAndCleanupExpiredSessions e this w))) \<and>
         (\<exists>pre post.
            trace (snd (checkAndCleanupExpiredSessions e this w)) =
              trace w @ pre
              @ [case transport (heap w r) of
                   Some t \<Rightarrow> TransportClose t
                 | None \<Rightarrow> ConsoleLog (''MCP session '' @ sessionId (heap w r) @ '' cleaned up'')]
              @ post \<and>
            ConsoleLog (''Expired MCP session '' @ sid @ '' removed'') \<in> set post) \<and>
         client (heap (settle_cleanups e' (fst (checkAndCleanupExpiredSessions e this w))
                        (snd (checkAndCleanupExpiredSessions e this w))) r) = None \<and>
         transport (heap (settle_cleanups e' (fst (checkAndCleanupExpiredSessions e this w))
                        (snd (checkAndCleanupExpiredSessions e this w))) r) = None \<and>
         \<not> isConnected (heap (settle_cleanups e' (fst (checkAndCleanupExpiredSessions e this w))
                        (snd (checkAndCleanupExpiredSessions e this w))) r)) \<and>
    instances (settle_cleanups e' (fst (checkAndCleanupExpiredSessions e this w))
                 (snd (checkAndCleanupExpiredSessions e this w))) =
      instances (snd (checkAndCleanupExpiredSessions e this w)) \<and>
    (\<forall>r. r \<noteq> this \<and>
         (\<forall>sid. (sid, r) \<in> set (instances w) \<longrightarrow> \<not> dateNow e - lastUsed (heap w r) > SESSION_TIMEOUT) \<longrightarrow>
         heap (snd (checkAndCleanupExpiredSessions e this w)) r = heap w r) \<and>
    (\<exists>evs. trace (snd (checkAndCleanupExpiredSessions e this w)) =
             trace w @ evs
             @ (if instances (snd (checkAndCleanupExpiredSessions e this w)) \<noteq> []
                then [SetTimeout (fresh w) CLEANUP_INTERVAL] else []) \<and>
           (\<forall>ev \<in> set evs. \<forall>tm d. ev \<noteq> SetTimeout tm d))"
proof -
  let ?P = "\<lambda>(sid, r). dateNow e - lastUsed (heap w r) > SESSION_TIMEOUT"
  let ?sids = "expiredSessions (dateNow e) w"
  let ?L = "cleanupExpired ?sids ([], w)"
  let ?S = "checkAndCleanupExpiredSessions e this w"
  let ?W = "settle_cleanups e' (fst ?S) (snd ?S)"
  have sids: "?sids = map fst (filter ?P (instances w))"
    by (simp add: expiredSessions_def)
  have c1: "instances (snd ?S) = filter (\<lambda>(sid, r). \<not> dateNow e - lastUsed (heap w r) > SESSION_TIMEOUT) (instances w)"
  proof -
    have "instances (snd ?S) = filter (\<lambda>(k, v). k \<notin> set (map fst (filter ?P (instances w)))) (instances w)"
      by (simp only: sweep_parts(2) cleanupExpired_instances sids)
    also have "\<dots> = filter (\<lambda>x. \<not> ?P x) (instances w)"
      using assms by (rule filter_keys_distinct)
    also have "\<dots> = filter (\<lambda>(sid, r). \<not> dateNow e - lastUsed (heap w r) > SESSION_TIMEOUT) (instances w)"
      by (rule filter_cong) auto
    finally show ?thesis .
  qed
  have c2: "(\<forall>t. transport (heap w r) = Some t \<longrightarrow> (r, t) \<in> set (fst ?S)) \<and>
         (\<exists>pre post.
            trace (snd ?S) =
              trace w @ pre
              @ [case transport (heap w r) of
                   Some t \<Rightarrow> TransportClose t
                 | None \<Rightarrow> ConsoleLog (''MCP session '' @ sessionId (heap w r) @ '' cleaned up'')]
              @ post \<and>
            ConsoleLog (''Expired MCP session '' @ sid @ '' removed'') \<in> set post) \<and>
         client (heap ?W r) = None \<and> transport (heap ?W r) = None \<and> \<not> isConnected (heap ?W r)"
    if mem: "(sid, r) \<in> set (instances w)" and ex: "dateNow e - lastUsed (heap w r) > SESSION_TIMEOUT"
    for sid r
  proof -
    have m: "map_of (instances w) sid = Some r"
      using assms mem by (rule map_of_is_SomeI)
    have s: "sid \<in> set ?sids"
      using mem ex by (force simp: sids)
    note t = cleanupExpired_touched [OF s m, of "[]"]
    have p: "\<forall>t. transport (heap w r) = Some t \<longrightarrow> (r, t) \<in> set (fst ?S)"
      using t by (simp only: sweep_parts(1)) blast
    obtain pre post where pp: "trace (snd ?L) =
              trace w @ pre
              @ [case transport (heap w r) of
                   Some t \<Rightarrow> TransportClose t
                 | None \<Rightarrow> ConsoleLog (''MCP session '' @ sessionId (heap w r) @ '' cleaned up'')]
              @ post" "ConsoleLog (''Expired MCP session '' @ sid @ '' removed'') \<in> set post"
      using t by blast
    let ?tail = "if instances (snd ?L) \<noteq> [] then [SetTimeout (fresh w) CLEANUP_INTERVAL] else []"
    have "trace (snd ?S) =
              trace w @ pre
              @ [case transport (heap w r) of
                   Some t \<Rightarrow> TransportClose t
                 | None \<Rightarrow> ConsoleLog (''MCP session '' @ sessionId (heap w r) @ '' cleaned up'')]
              @ (post @ ?tail)"
      by (simp only: sweep_parts(3) pp(1) append_assoc)
    moreover have "ConsoleLog (''Expired MCP session '' @ sid @ '' removed'') \<in> set (post @ ?tail)"
      using pp(2) by simp
    ultimately have o: "\<exists>pre post.
            trace (snd ?S) =
              trace w @ pre
              @ [case transport (heap w r) of
                   Some t \<Rightarrow> TransportClose t
                 | None \<Rightarrow> ConsoleLog (''MCP session '' @ sessionId (heap w r) @ '' cleaned up'')]
              @ post \<and>
            ConsoleLog (''Expired MCP session '' @ sid @ '' removed'') \<in> set post"
      by blast
    have hL: "heap (snd ?L) r = afterCall (heap w r)"
      using t by blast
    have f: "client (heap ?W r) = None \<and> transport (heap ?W r) = None \<and> \<not> isConnected (heap ?W r)"
    proof (cases "transport (heap w r)")
      case None
      then show ?thesis
        using afterCall_cleared [OF None]
        by (simp add: settle_cleanups_heap sweep_parts(4,5,6) hL)
    next
      case (Some t)
      then have "(r, t) \<in> set (fst ?S)" using p by blast
      then have "r \<in> fst ` set (fst ?S)" by force
      then show ?thesis
        by (simp add: settle_cleanups_heap)
    qed
    show ?thesis using p o f by blast
  qed
  have c3: "instances ?W = instances (snd ?S)"
    by simp
  have c4: "heap (snd ?S) r = heap w r"
    if r: "r \<noteq> this" and ne: "\<forall>sid. (sid, r) \<in> set (instances w) \<longrightarrow> \<not> dateNow e - lastUsed (heap w r) > SESSION_TIMEOUT"
    for r
  proof -
    have "\<forall>sid \<in> set ?sids. map_of (instances w) sid \<noteq> Some r"
    proof
      fix sid assume "sid \<in> set ?sids"
      then obtain r' where r': "(sid, r') \<in> set (instances w)"
          "dateNow e - lastUsed (heap w r') > SESSION_TIMEOUT"
        by (auto simp: sids)
      have "map_of (instances w) sid = Some r'"
        using assms r'(1) by (rule map_of_is_SomeI)
      then show "map_of (instances w) sid \<noteq> Some r"
        using r' ne by auto
    qed
    then have "heap (snd ?L) r = heap w r"
      by (rule cleanupExpired_untouched)
    then show ?thesis using r by (simp add: sweep_parts(7))
  qed
  have c5: "\<exists>evs. trace (snd ?S) =
             trace w @ evs
             @ (if instances (snd ?S) \<noteq> [] then [SetTimeout (fresh w) CLEANUP_INTERVAL] else []) \<and>
           (\<forall>ev \<in> set evs. \<forall>tm d. ev \<noteq> SetTimeout tm d)"
  proof -
    obtain evs where e: "trace (snd ?L) = trace w @ evs" "\<forall>ev \<in> set evs. quiet ev"
      using cleanupExpired_trace by blast
    have "\<forall>ev \<in> set evs. \<forall>tm d. ev \<noteq> SetTimeout tm d"
      using e(2) by (auto simp: quiet_def)
    moreover have "trace (snd ?S) =
             trace w @ evs
             @ (if instances (snd ?S) \<noteq> [] then [SetTimeout (fresh w) CLEANUP_INTERVAL] else [])"
      by (simp only: sweep_parts(2,3) e(1) append_assoc)
    ultimately show ?thesis by blast
  qed
  show ?thesis
    using c1 c2 c3 c4 c5 by (intro conjI; blast)
qed

theorem sweep_removes_expired_witness:
  "distinct (map fst (instances twoSessionsWorld)) \<and>
   instances (snd (checkAndCleanupExpiredSessions (calm 1801001) 4 twoSessionsWorld)) = [(''t'', 4)] \<and>
   (0, 77) \<in> set (fst (checkAndCleanupExpiredSessions (calm 1801001) 4 twoSessionsWorld)) \<and>
   transport
     (heap (settle_cleanups ((calm 1801002)\<lparr>closeError := (\<lambda>t. Some ''stuck'')\<rparr>)
              (fst (checkAndCleanupExpiredSessions (calm 1801001) 4 twoSessionsWorld))
              (snd (checkAndCleanupExpiredSessions (calm 1801001) 4 twoSessionsWorld))) 0) = None \<and>
   instances
     (settle_cleanups ((calm 1801002)\<lparr>closeError := (\<lambda>t. Some ''stuck'')\<rparr>)
        (fst (checkAndCleanupExpiredSessions (calm 1801001) 4 twoSessionsWorld))
        (snd (checkAndCleanupExpiredSessions (calm 1801001) 4 twoSessionsWorld))) = [(''t'', 4)]"
proof -
  have d: "distinct (map fst (instances twoSessionsWorld))"
    by (simp add: twoSessionsWorld_facts)
  note t = sweep_removes_expired
             [OF d, of "calm 1801001" 4 "(calm 1801002)\<lparr>closeError := (\<lambda>t. Some ''stuck'')\<rparr>"]
  have i: "instances (snd (checkAndCleanupExpiredSessions (calm 1801001) 4 twoSessionsWorld)) = [(''t'', 4)]"
    using t by (simp add: twoSessionsWorld_facts calm_def SESSION_TIMEOUT_def)
  have ex: "dateNow (calm 1801001) - lastUsed (heap twoSessionsWorld 0) > SESSION_TIMEOUT"
    by (simp add: twoSessionsWorld_facts calm_def SESSION_TIMEOUT_def)
  have mem: "(''s'', 0) \<in> set (instances twoSessionsWorld)"
    by (simp add: twoSessionsWorld_facts)
  have "(0, 77) \<in> set (fst (checkAndCleanupExpiredSessions (calm 1801001) 4 twoSessionsWorld)) \<and>
        transport
     (heap (settle_cleanups ((calm 1801002)\<lparr>closeError := (\<lambda>t. Some ''stuck'')\<rparr>)
              (fst (checkAndCleanupExpiredSessions (calm 1801001) 4 twoSessionsWorld))
              (snd (checkAndCleanupExpiredSessions (calm 1801001) 4 twoSessionsWorld))) 0) = None"
    using t mem ex twoSessionsWorld_facts(2) by blast
  moreover have "instances
     (settle_cleanups ((calm 1801002)\<lparr>closeError := (\<lambda>t. Some ''stuck'')\<rparr>)
        (fst (checkAndCleanupExpiredSessions (calm 1801001) 4 twoSessionsWorld))
        (snd (checkAndCleanupExpiredSessions (calm 1801001) 4 twoSessionsWorld))) = [(''t'', 4)]"
    using t i by simp
  ultimately show ?thesis using d i by blast
qed


subsection \<open>Calls awaited one after the other leave no stale attempt\<close>

text \<open>
  \<open>connect\<close> in full, by the state it is called in: connected and valid, connected
  and no longer valid, not connected with an attempt recorded, and (above,
  \<open>connect_unconnected\<close>) not connected with none. From these: when every connected
  session has no attempt recorded, as at program start, this stays so under
  \<open>getInstance\<close>, \<open>connect\<close>, \<open>getClient\<close>, \<open>getClientSync\<close>, \<open>cleanup\<close>,
  \<open>cleanupAllSessions\<close> and the transport's error observer, each run to its end.
\<close>

lemma connect_valid:
  assumes "isConnected (heap w r)" "client (heap w r) = Some c" "transport (heap w r) = Some t0"
          "listToolsError e c = None"
  shows "connect e r t w =
           (Returns (Some c), modify r (\<lambda>h. h\<lparr>lastUsed := dateNow e\<rparr>) (emit (ListTools c) w))"
proof -
  have call: "connect_call r t w = (AtValidate (Some c), [], emit (ListTools c) w)"
    using assms by (simp add: connect_call_def validateConnection_call_def)
  have "connect_round e r t (AtValidate (Some c), [], emit (ListTools c) w) =
          (Finished (Returns (Some c)), [],
           modify r (\<lambda>h. h\<lparr>lastUsed := dateNow e\<rparr>) (emit (ListTools c) w))"
    using assms
    by (simp add: connect_round_def connect_resume_def validateConnection_error_def Let_def)
  then show ?thesis
    unfolding connect_def call by (rule connect_finish_1)
qed

lemma connect_invalid:
  assumes "isConnected (heap w r)" "client (heap w r) = Some c"
          "transport (heap w r) = None \<or> listToolsError e c \<noteq> None"
          "connectionPromise (heap w r) = None"
  shows "connect e r t w = attempt_result e r t (invalidated r c w)"
proof -
  let ?probe = "if transport (heap w r) = None then None else Some c"
  let ?w1 = "case transport (heap w r) of None \<Rightarrow> w | Some t0 \<Rightarrow> emit (ListTools c) w"
  have call: "connect_call r t w = (AtValidate ?probe, [], ?w1)"
    using assms(1,2) by (auto simp: connect_call_def validateConnection_call_def split: option.splits)
  have err: "validateConnection_error e ?probe \<noteq> None"
    using assms(3) by (auto simp: validateConnection_error_def split: option.splits)
  have w1: "heap ?w1 = heap w"
    by (simp split: option.splits)
  have "connect_resume e r t (AtValidate ?probe) ?w1 = connect_wait r t (invalidated r c w)"
    using err w1 by (auto simp: connect_resume_def invalidated_def Let_def split: option.splits)
  also have "\<dots> = connect_attempt r t (invalidated r c w)"
  proof -
    have "connectionPromise (heap (invalidated r c w) r) = None"
      using assms(4) by (simp add: invalidated_def split: option.splits)
    then show ?thesis by (simp add: connect_wait_def)
  qed
  finally have r1: "connect_round e r t (AtValidate ?probe, [], ?w1) =
                      connect_attempt r t (invalidated r c w)"
    by (simp add: connect_round_def)
  have "connect_finish e r t (AtValidate ?probe, [], ?w1) =
          (fst (attempt_result e r t (invalidated r c w)), snd (attempt_result e r t (invalidated r c w)))"
    using r1 connect_round_attempt_result [of e r t "invalidated r c w"]
    by (rule connect_finish_2)
  then show ?thesis
    by (simp add: connect_def call)
qed

lemma connect_waiting:
  assumes "\<not> isSessionConnected r w" "connectionPromise (heap w r) = Some p"
  shows "connect e r t w =
           (case promises w p of
              Pending \<Rightarrow> (Pends, w)
            | Rejected err \<Rightarrow> (Throws err, w)
            | Resolved \<Rightarrow> attempt_result e r t w)"
proof -
  have call: "connect_call r t w = (AtShared p, [], w)"
    using assms by (rule connect_call_waits(1))
  show ?thesis
  proof (cases "promises w p")
    case Pending
    then have "connect_round e r t (AtShared p, [], w) = (AtShared p, [], w)"
      by (simp add: connect_round_def connect_resume_def)
    then show ?thesis
      by (simp add: connect_def call connect_finish_def Pending)
  next
    case Resolved
    then have "connect_round e r t (AtShared p, [], w) = connect_attempt r t w"
      using assms(1) by (auto simp: connect_round_def connect_resume_def isSessionConnected_def)
    then have "connect_finish e r t (AtShared p, [], w) =
                 (fst (attempt_result e r t w), snd (attempt_result e r t w))"
      using connect_round_attempt_result [of e r t w] by (rule connect_finish_2)
    then show ?thesis
      by (simp add: connect_def call Resolved)
  next
    case (Rejected err)
    then have "connect_round e r t (AtShared p, [], w) = (Finished (Throws err), [], w)"
      by (simp add: connect_round_def connect_resume_def)
    then show ?thesis
      unfolding connect_def call Rejected by (simp add: connect_finish_1)
  qed
qed

lemma attempt_result_noStale:
  assumes "\<forall>r'. noStaleAttempt (heap w r')"
  shows "noStaleAttempt (heap (snd (attempt_result e r t w)) r')"
  using assms by (auto simp: attempt_result_heap noStaleAttempt_def split: option.splits)

lemma connect_noStale:
  assumes "\<forall>r'. noStaleAttempt (heap w r')"
  shows "\<forall>r'. noStaleAttempt (heap (snd (connect e r t w)) r')"
proof (cases "isSessionConnected r w")
  case False
  show ?thesis
  proof (cases "connectionPromise (heap w r)")
    case None
    then show ?thesis
      using assms False attempt_result_noStale by (simp add: connect_unconnected)
  next
    case (Some p)
    then show ?thesis
      using assms attempt_result_noStale
      by (cases "promises w p") (simp_all add: connect_waiting [OF False Some])
  qed
next
  case True
  then obtain c where c: "isConnected (heap w r)" "client (heap w r) = Some c"
    by (auto simp: isSessionConnected_def)
  then have np: "connectionPromise (heap w r) = None"
    using assms by (auto simp: noStaleAttempt_def)
  show ?thesis
  proof (cases "transport (heap w r) = None \<or> listToolsError e c \<noteq> None")
    case True
    have "\<forall>r'. noStaleAttempt (heap (invalidated r c w) r')"
      using assms by (auto simp: invalidated_def noStaleAttempt_def split: option.splits)
    then show ?thesis
      using attempt_result_noStale by (simp add: connect_invalid [OF c True np])
  next
    case False
    then obtain t0 where "transport (heap w r) = Some t0" "listToolsError e c = None"
      by auto
    then show ?thesis
      using assms c by (auto simp: connect_valid noStaleAttempt_def)
  qed
qed

lemma sequential_noStale:
  assumes "\<forall>r'. noStaleAttempt (heap w r')"
  shows "\<forall>r'. noStaleAttempt (heap (snd (getInstance e sid w)) r')"
    and "\<forall>r'. noStaleAttempt (heap (snd (getClient e r w)) r')"
    and "\<forall>r'. noStaleAttempt (heap (snd (getClientSync e r w)) r')"
    and "\<forall>r'. noStaleAttempt (heap (snd (cleanup e r w)) r')"
    and "\<forall>r'. noStaleAttempt (heap (snd (cleanupAllSessions e w)) r')"
    and "\<forall>r'. noStaleAttempt (heap (transport_onerror r msg w) r')"
proof -
  show "\<forall>r'. noStaleAttempt (heap (snd (getInstance e sid w)) r')"
    using assms
    by (auto simp: getInstance_def newSessionManager_def Let_def startCleanupTimer_heap
          noStaleAttempt_def split: option.splits)
  show "\<forall>r'. noStaleAttempt (heap (snd (getClient e r w)) r')"
  proof (cases rule: getClient_cases [where r = r and w = w and e = e])
    case unconnected
    then show ?thesis using assms by (simp add: getClient_unconnected)
  next
    case (valid c t0)
    then show ?thesis using assms by (auto simp: getClient_valid noStaleAttempt_def)
  next
    case (invalid c)
    then show ?thesis using assms
      by (auto simp: getClient_invalid noStaleAttempt_def split: option.splits)
  qed
  show "\<forall>r'. noStaleAttempt (heap (snd (getClientSync e r w)) r')"
    using assms by (auto simp: getClientSync_def Let_def noStaleAttempt_def)
  show "\<forall>r'. noStaleAttempt (heap (snd (cleanup e r w)) r')"
    using assms by (auto simp: cleanup_heap noStaleAttempt_def)
  show "\<forall>r'. noStaleAttempt (heap (transport_onerror r msg w) r')"
    using assms by (auto simp: transport_onerror_def noStaleAttempt_def)
  show "\<forall>r'. noStaleAttempt (heap (snd (cleanupAllSessions e w)) r')"
  proof
    fix r'
    let ?rs = "map snd (instances w)"
    let ?w1 = "snd (cleanup_calls ?rs w)"
    let ?w2 = "settle_cleanups e (fst (cleanup_calls ?rs w)) ?w1"
    have "heap (snd (cleanupAllSessions e w)) = heap ?w2"
      by (simp add: cleanupAllSessions_def Let_def split: prod.splits)
    moreover have "noStaleAttempt (heap ?w2 r')"
      using assms
      by (auto simp: settle_cleanups_heap cleanup_calls_heap noStaleAttempt_def afterClose_def
            afterCall_def split: option.splits)
    ultimately show "noStaleAttempt (heap (snd (cleanupAllSessions e w)) r')"
      by simp
  qed
qed

lemma startWorld_noStale: "\<forall>r'. noStaleAttempt (heap startWorld r')"
  by (simp add: startWorld_def blankHandle_def noStaleAttempt_def)

end
